theory Spec2Isabelle
  imports Complex_Main "HOL-Library.Product_Lexorder"
begin

section \<open>Values and grouped arrays\<close>

text \<open>
  The numeric buffers of \<^verbatim>\<open>mlforecast/core.py\<close> are numpy float arrays. A float is
  modelled as a real number or the not-a-number value; \<^verbatim>\<open>np.isnan\<close> is the test
  for the latter.
\<close>

datatype fval = NaN | Val real

definition isnan :: "fval \<Rightarrow> bool" where
  "isnan v = (v = NaN)"

text \<open>
  Exceptions are values. Every \<^verbatim>\<open>raise ValueError(...)\<close> of the source has a
  constructor of its own, named after what the message says:
  \<^item> \<open>UnknownFrequencyType\<close>: "Unknown frequency type Please use a str, int or offset
    frequency type.";
  \<^item> \<open>LambdaDateFeature\<close>: "Can't use a lambda as a date feature because the function
    name gets used as the feature name.";
  \<^item> \<open>NullTarget\<close>: "(target_col) column contains null values.";
  \<^item> \<open>MissingFrequency\<close>: "Must set frequency when using a timestamp type column.";
  \<^item> \<open>HorizonTooLarge\<close>: "horizon must be at most max_horizon (...)";
  \<^item> \<open>UnseenIds\<close>: "The following ids weren't seen during training and thus can't be
    forecasted: ...";
  \<^item> \<open>MissingIdTimeColumns\<close>: "X_df must have '(id_col)' and '(time_col)' columns.";
  \<^item> \<open>NoExogenousFeatures\<close>: "Found no exogenous features in `X_df`.";
  \<^item> \<open>StaticDynamicConflict\<close>: "The following features were provided through `X_df`
    but were considered as static during fit: ...", with the list of common columns;
  \<^item> \<open>MissingExogenousRows\<close>: "Found missing inputs in X_df. It should have one row
    per id and date for the complete forecasting horizon".

  The other constructors are the exceptions of Python, numpy and pandas (a size or length
  mismatch is \<open>ShapeError\<close>), and \<open>Raised\<close> is an exception raised by code outside
  this module (a transform function, a model, a callback), with its own content.
\<close>

type_synonym uid = nat

datatype error =
    UnknownFrequencyType
  | LambdaDateFeature
  | NullTarget
  | MissingFrequency
  | HorizonTooLarge
  | UnseenIds "uid list"
  | MissingIdTimeColumns
  | NoExogenousFeatures
  | StaticDynamicConflict "string list"
  | MissingExogenousRows
  | ShapeError
  | IndexError
  | KeyError string
  | TypeError
  | AttributeError
  | UnboundLocalError
  | AssertionError
  | Raised string

text \<open>
  \<^verbatim>\<open>warnings.warn\<close>: the warnings of this module are "Setting num_threads to 1.",
  "Setting `freq=1` since time col is int." and "Found null values in ..." with the names
  of the columns.
\<close>

datatype warning = NumThreadsWarning | FreqWarning | NullsWarning "string list"

section \<open>Grouped arrays\<close>

text \<open>
  A grouped array is a flat buffer \<open>data\<close> and the offsets \<open>indptr\<close> of its groups:
  group \<open>i\<close> is \<^verbatim>\<open>data[indptr[i] : indptr[i + 1]]\<close>. Offsets are never negative, so
  they are natural numbers here.
\<close>

record GroupedArray =
  data :: "fval list"
  indptr :: "nat list"

text \<open>Python's \<^verbatim>\<open>xs[lo:hi]\<close> for bounds that are not negative: it clamps, it never raises.\<close>

definition slice :: "'a list \<Rightarrow> nat \<Rightarrow> nat \<Rightarrow> 'a list" where
  "slice xs lo hi = take (hi - lo) (drop lo xs)"

definition n_groups :: "GroupedArray \<Rightarrow> nat" where
  "n_groups g = length (indptr g) - 1"

definition group :: "GroupedArray \<Rightarrow> nat \<Rightarrow> fval list" where
  "group g i = slice (data g) (indptr g ! i) (indptr g ! (i + 1))"

text \<open>
  The invariant of the data model: \<open>indptr\<close> starts at 0, does not decrease and ends at
  the length of the buffer.
\<close>

definition wf_ga :: "GroupedArray \<Rightarrow> bool" where
  "wf_ga g = (indptr g \<noteq> [] \<and> hd (indptr g) = 0 \<and> sorted (indptr g)
              \<and> last (indptr g) = length (data g))"

subsection \<open>\<^verbatim>\<open>_expand_target\<close>\<close>

text \<open>
  The body of the loop over \<open>j\<close>: the row of the observation at offset \<open>j\<close> of
  \<open>serie\<close>. The first inner loop copies \<^verbatim>\<open>serie[j + k]\<close> for \<open>k < upper\<close>, the second
  fills the rest of the row with NaN.
\<close>

definition expand_row :: "fval list \<Rightarrow> nat \<Rightarrow> nat \<Rightarrow> fval list" where
  "expand_row serie j max_horizon =
     (let upper = min (length serie - j) max_horizon
      in map (\<lambda>k. serie ! (j + k)) [0..<upper] @ map (\<lambda>k. NaN) [upper..<max_horizon])"

text \<open>
  \<^verbatim>\<open>_expand_target(data, indptr, max_horizon)\<close>. The counter \<open>n\<close> of the source grows
  by one for every row written, so the rows written are \<^verbatim>\<open>out[0], out[1], ...\<close> in the
  order of the two outer loops; the result is that list of rows. \<^verbatim>\<open>out\<close> is allocated
  with \<^verbatim>\<open>data.size\<close> rows: on a well-formed grouped array exactly that many rows are
  written (lemma \<open>length_expand_target\<close>).
\<close>

definition expand_target :: "fval list \<Rightarrow> nat list \<Rightarrow> nat \<Rightarrow> fval list list" where
  "expand_target dat ptr max_horizon =
     concat (map (\<lambda>i. let serie = slice dat (ptr ! i) (ptr ! (i + 1))
                        in map (\<lambda>j. expand_row serie j max_horizon) [0..<length serie])
                 [0..<length ptr - 1])"


text \<open>The two series \<open>[1, 2, 3, 4]\<close> and \<open>[10, 20, 30]\<close> of the concrete scenario.\<close>

definition ga_example :: GroupedArray where
  "ga_example = \<lparr>data = [Val 1, Val 2, Val 3, Val 4, Val 10, Val 20, Val 30], indptr = [0, 4, 7]\<rparr>"

subsection \<open>The operations of \<^verbatim>\<open>GroupedArray\<close>\<close>

text \<open>
  The class \<^verbatim>\<open>GroupedArray\<close> lives in the module \<^verbatim>\<open>grouped_array\<close>, which
  \<^verbatim>\<open>core.py\<close> imports. The operations that \<^verbatim>\<open>core.py\<close> calls are modelled from
  their contracts. A numpy array has a fixed size, so an operation that grows or selects
  builds a new grouped array and leaves the buffers of the old one as they are.
\<close>

text \<open>
  Modelled from the spec: the module \<^verbatim>\<open>grouped_array\<close> is not in the source given.
  "Group \<open>i\<close> occupies \<open>data[indptr[i]:indptr[i+1]]\<close> in time order": \<open>groups\<close> are
  the groups of a grouped array in their order, and \<open>from_groups\<close> is the grouped array
  with these groups, whose \<open>indptr\<close> starts at 0 and adds up the lengths.
\<close>

definition groups :: "GroupedArray \<Rightarrow> fval list list" where
  "groups g = map (group g) [0..<n_groups g]"

fun offsets :: "nat \<Rightarrow> 'a list list \<Rightarrow> nat list" where
  "offsets n [] = [n]"
| "offsets n (xs # xss) = n # offsets (n + length xs) xss"

definition from_groups :: "fval list list \<Rightarrow> GroupedArray" where
  "from_groups gs = \<lparr>data = concat gs, indptr = offsets 0 gs\<rparr>"

text \<open>
  Modelled from the spec: \<^verbatim>\<open>GroupedArray.append\<close> is not in the source given.
  "\<open>append(values)\<close> appends one new value to the tail of every group (vectorized
  one-step growth); fails with ShapeError if length of values is not the number of groups."
\<close>

definition ga_append :: "GroupedArray \<Rightarrow> fval list \<Rightarrow> error + GroupedArray" where
  "ga_append g new =
     (if length new \<noteq> n_groups g then Inl ShapeError
      else Inr (from_groups (map (\<lambda>(s, v). s @ [v]) (zip (groups g) new))))"

text \<open>
  Modelled from the spec: \<^verbatim>\<open>GroupedArray.take\<close> is not in the source given.
  "\<open>take(idxs)\<close> returns a new GroupedArray containing only the selected groups."
  A group that does not exist is an \<open>IndexError\<close>.
\<close>

definition ga_take :: "GroupedArray \<Rightarrow> nat list \<Rightarrow> error + GroupedArray" where
  "ga_take g idxs =
     (if \<forall>i \<in> set idxs. i < n_groups g then Inr (from_groups (map (group g) idxs))
      else Inl IndexError)"

text \<open>Python's \<^verbatim>\<open>xs[start:]\<close>: a negative \<open>start\<close> counts from the end.\<close>

definition slice_from :: "int \<Rightarrow> 'a list \<Rightarrow> 'a list" where
  "slice_from start xs =
     (if start < 0 then drop (length xs - nat (- start)) xs else drop (nat start) xs)"

text \<open>
  Modelled from the spec: \<^verbatim>\<open>GroupedArray.take_from_groups\<close> is not in the source
  given. "\<open>take_from_groups(range)\<close> returns a new GroupedArray containing only a
  trailing/leading sub-range of each group's observations." The source calls it with
  \<^verbatim>\<open>slice(-keep_last_n, None)\<close> only, so the range is given by its start.
\<close>

definition take_from_groups :: "GroupedArray \<Rightarrow> int \<Rightarrow> GroupedArray" where
  "take_from_groups g start = from_groups (map (slice_from start) (groups g))"

text \<open>
  Modelled from the spec: the shift is part of \<^verbatim>\<open>GroupedArray.transform_series\<close>,
  which is not in the source given. "The lag-shifted sub-array of that group": it has the
  group's length, its first \<open>lag\<close> entries are NaN and the rest are the group's values
  moved \<open>lag\<close> places to the right.
\<close>

definition shift_array :: "fval list \<Rightarrow> nat \<Rightarrow> fval list" where
  "shift_array xs lag = replicate (min lag (length xs)) NaN @ take (length xs - lag) xs"

text \<open>
  A transform function gets the shifted array of one group and the extra arguments; it
  returns an array or raises.
\<close>

type_synonym transform_fn = "fval list \<Rightarrow> int list \<Rightarrow> error + fval list"

fun collect :: "('a \<Rightarrow> error + 'b) \<Rightarrow> 'a list \<Rightarrow> error + 'b list" where
  "collect f [] = Inr []"
| "collect f (x # xs) =
     (case f x of
        Inl e \<Rightarrow> Inl e
      | Inr y \<Rightarrow> (case collect f xs of Inl e \<Rightarrow> Inl e | Inr ys \<Rightarrow> Inr (y # ys)))"

text \<open>
  Modelled from the spec: \<^verbatim>\<open>GroupedArray.transform_series\<close> is not in the source
  given; \<open>transform_group\<close> is what it does with one group. "\<open>transform_series(updates_only, lag, fn, *args)\<close>: for every group, apply
  \<open>fn\<close> to the lag-shifted sub-array of that group and return one flat output buffer of
  the same total length (or, if \<open>updates_only\<close>, one value per group representing only
  the most recent point). Lag larger than the group's length yields NaN." The most recent
  point of an empty group does not exist (\<open>IndexError\<close>), an output that does not have
  the group's length cannot be stored in the buffer (\<open>ShapeError\<close>), and the spec says
  nothing about a negative lag, which is an error here.
\<close>

definition transform_group :: "bool \<Rightarrow> nat \<Rightarrow> transform_fn \<Rightarrow> int list \<Rightarrow> fval list \<Rightarrow> error + fval list" where
  "transform_group updates_only lag fn args s =
     (case fn (shift_array s lag) args of
        Inl e \<Rightarrow> Inl e
      | Inr out \<Rightarrow>
          if updates_only then (if out = [] then Inl IndexError else Inr [last out])
          else if length out \<noteq> length s then Inl ShapeError
          else Inr out)"

definition transform_series :: "GroupedArray \<Rightarrow> bool \<Rightarrow> int \<Rightarrow> transform_fn \<Rightarrow> int list \<Rightarrow> error + fval list" where
  "transform_series g updates_only lag fn args =
     (if lag < 0 then Inl (Raised ''negative lag'')
      else case collect (transform_group updates_only (nat lag) fn args) (groups g) of
             Inl e \<Rightarrow> Inl e
           | Inr outs \<Rightarrow> Inr (concat outs))"

section \<open>Names of transforms and models\<close>

text \<open>Python's \<^verbatim>\<open>str\<close> of an integer, which the f-strings of the source apply.\<close>

definition digit_char :: "nat \<Rightarrow> char" where
  "digit_char d = ''0123456789'' ! d"

fun str_nat :: "nat \<Rightarrow> string" where
  "str_nat n = (if n < 10 then [digit_char n] else str_nat (n div 10) @ [digit_char (n mod 10)])"

declare str_nat.simps [simp del]

definition str_int :: "int \<Rightarrow> string" where
  "str_int i = (if i < 0 then ''-'' @ str_nat (nat (- i)) else str_nat (nat i))"

text \<open>\<^verbatim>\<open>sep.join(xs)\<close>\<close>

fun join :: "string \<Rightarrow> string list \<Rightarrow> string" where
  "join sep [] = []"
| "join sep [x] = x"
| "join sep (x # y # ys) = x @ sep @ join sep (y # ys)"

text \<open>
  A transform function as the source uses it: its \<^verbatim>\<open>__name__\<close>, the parameters of its
  signature in order (each with its default, \<open>None\<close> when it has none; the first one is
  the input array), and the function itself. Extra arguments are integers (window sizes
  and the like).
\<close>

record tfm =
  fn_name :: string
  fn_params :: "(string \<times> int option) list"
  fn_call :: transform_fn

text \<open>
  \<^verbatim>\<open>_build_transform_name(lag, tfm, *args)\<close>. \<^verbatim>\<open>zip\<close> stops at the shorter of
  \<open>args\<close> and \<open>func_args\<close>; a parameter without default differs from every value.
\<close>

definition build_transform_name :: "int \<Rightarrow> tfm \<Rightarrow> int list \<Rightarrow> string" where
  "build_transform_name lag f args =
     (let tfm_name = fn_name f @ ''_lag'' @ str_int lag;
          func_args = tl (fn_params f);
          changed_params =
            map (\<lambda>(v, (name, dflt)). name @ str_int v)
              (filter (\<lambda>(v, (name, dflt)). dflt \<noteq> Some v) (zip args func_args))
      in if changed_params \<noteq> [] then tfm_name @ ''_'' @ join ''_'' changed_params
         else tfm_name)"

text \<open>
  \<^verbatim>\<open>_name_models(current_names)\<close>. \<open>ctr\<close> is the \<^verbatim>\<open>Counter\<close>; the loop runs over
  \<^verbatim>\<open>enumerate(reversed(current_names), start=1)\<close> and writes \<^verbatim>\<open>names[-i]\<close>, the
  entry at \<open>length names - i\<close>.
\<close>

fun name_models_loop :: "(string \<Rightarrow> nat) \<Rightarrow> string list \<Rightarrow> (nat \<times> string) list \<Rightarrow> string list" where
  "name_models_loop ctr names [] = names"
| "name_models_loop ctr names ((i, x) # rest) =
     (let count = ctr x
      in if count > 1
         then name_models_loop (ctr(x := count - 1))
                (names[length names - i := x @ str_nat count]) rest
         else name_models_loop ctr (names[length names - i := x]) rest)"

definition name_models :: "string list \<Rightarrow> string list" where
  "name_models current_names =
     (let ctr = count_list current_names
      in if current_names = [] then []
         else if fold max (map ctr current_names) 0 < 2 then current_names
         else name_models_loop ctr current_names
                (zip [1..<length current_names + 1] (rev current_names)))"

text \<open>\<^verbatim>\<open>_identity\<close>: a function of one parameter, the array.\<close>

definition identity :: tfm where
  "identity = \<lparr>fn_name = ''_identity'', fn_params = [(''x'', None)],
               fn_call = (\<lambda>x args. if args = [] then Inr x else Inl TypeError)\<rparr>"

text \<open>
  The registry \<^verbatim>\<open>self.transforms\<close> is an \<^verbatim>\<open>OrderedDict\<close> from the name to the
  tuple \<^verbatim>\<open>(lag, tfm, *args)\<close>: an association list with distinct keys, in insertion
  order. \<^verbatim>\<open>d[k] = v\<close> replaces the value of a key that is present, which keeps its
  place, and appends a key that is new.
\<close>

type_synonym tspec = "int \<times> tfm \<times> int list"

fun dict_set :: "'k \<Rightarrow> 'v \<Rightarrow> ('k \<times> 'v) list \<Rightarrow> ('k \<times> 'v) list" where
  "dict_set k v [] = [(k, v)]"
| "dict_set k v (p # ps) = (if fst p = k then (k, v) # ps else p # dict_set k v ps)"

text \<open>
  Lines 161 to 168 of \<^verbatim>\<open>TimeSeries.__init__\<close>: first the lags, each with
  \<^verbatim>\<open>_identity\<close>, then the lag transforms; \<^verbatim>\<open>lag_transforms\<close> is a dict from the lag
  to a list of transforms, each a function or a tuple of a function and its arguments
  (\<^verbatim>\<open>_as_tuple\<close> makes the former a tuple without arguments).
\<close>

definition register_lags :: "int list \<Rightarrow> (string \<times> tspec) list \<Rightarrow> (string \<times> tspec) list" where
  "register_lags lgs reg = fold (\<lambda>lag r. dict_set (''lag'' @ str_int lag) (lag, identity, []) r) lgs reg"

definition register_lag_transforms ::
  "(int \<times> (tfm \<times> int list) list) list \<Rightarrow> (string \<times> tspec) list \<Rightarrow> (string \<times> tspec) list" where
  "register_lag_transforms lts reg =
     fold (\<lambda>(lag, tfms) r.
             fold (\<lambda>(f, args) r'. dict_set (build_transform_name lag f args) (lag, f, args) r') tfms r)
          lts reg"

definition init_transforms :: "int list \<Rightarrow> (int \<times> (tfm \<times> int list) list) list \<Rightarrow> (string \<times> tspec) list" where
  "init_transforms lgs lts = register_lag_transforms lts (register_lags lgs [])"

text \<open>
  The registrations that lines 161 to 168 make, in their order: each computed name with
  its tuple. \<open>set_all\<close> stores a list of pairs in a dict, one after the other.
\<close>

definition registrations :: "int list \<Rightarrow> (int \<times> (tfm \<times> int list) list) list \<Rightarrow> (string \<times> tspec) list" where
  "registrations lgs lts =
     map (\<lambda>lag. (''lag'' @ str_int lag, (lag, identity, []))) lgs
     @ concat (map (\<lambda>(lag, tfms). map (\<lambda>(f, args). (build_transform_name lag f args, (lag, f, args))) tfms) lts)"

definition set_all :: "('k \<times> 'v) list \<Rightarrow> ('k \<times> 'v) list \<Rightarrow> ('k \<times> 'v) list" where
  "set_all regs reg = fold (\<lambda>p. dict_set (fst p) (snd p)) regs reg"

text \<open>
  The name by occurrence: the entry at position \<open>i\<close> of a list of names is the \<open>k\<close>-th
  occurrence of its name, counted from the start; the first occurrence is the bare name,
  a later one is the name followed by \<open>k\<close> in decimal.
\<close>

definition occurrence_name :: "string list \<Rightarrow> nat \<Rightarrow> string" where
  "occurrence_name names i =
     (let x = names ! i; k = count_list (take (Suc i) names) x
      in if k > 1 then x @ str_nat k else x)"

section \<open>The class \<^verbatim>\<open>TimeSeries\<close>\<close>

text \<open>
  Times are integers (steps, or timestamps in some unit). A frequency is an integer or a
  pandas offset; date arithmetic with an offset belongs to pandas, so an offset is given
  by what it does: \<open>Offset f\<close> advances the time \<open>t\<close> by \<open>k\<close> periods to \<open>f k t\<close>.
  An offset is never equal to the integer 1.
\<close>

datatype freq = IntFreq int | Offset "int \<Rightarrow> int \<Rightarrow> int"

fun freq_is_one :: "freq \<Rightarrow> bool" where
  "freq_is_one (IntFreq n) = (n = 1)"
| "freq_is_one (Offset f) = False"

fun add_freq :: "freq \<Rightarrow> int \<Rightarrow> int \<Rightarrow> int" where
  "add_freq (IntFreq n) k t = t + k * n"
| "add_freq (Offset f) k t = f k t"

text \<open>The argument \<^verbatim>\<open>freq\<close> of the constructor, by its Python type.\<close>

datatype freq_arg = FreqStr string | FreqOffset "int \<Rightarrow> int \<Rightarrow> int" | FreqInt int | FreqNone | FreqOther

text \<open>A date feature is the name of an attribute of the dates or a function with a name.\<close>

datatype date_feature = DateAttr string | DateFn string

text \<open>
  The table of predictions that \<^verbatim>\<open>predict\<close> returns: the id and time columns, and one
  column of values per model, in the order of their creation.
\<close>

record preds =
  pr_ids :: "uid list"
  pr_time :: "int list"
  pr_cols :: "(string \<times> fval list) list"

text \<open>
  A target transform is an object of the module \<^verbatim>\<open>target_transforms\<close>, given by its
  two methods. \<^verbatim>\<open>fit_transform\<close> gets the sorted frame, here the offsets of the
  groups and the target values, and returns the new target values;
  \<^verbatim>\<open>inverse_transform\<close> gets the attribute \<^verbatim>\<open>idxs\<close> that \<^verbatim>\<open>predict\<close> sets on the
  object and the table of predictions.
\<close>

record target_transform =
  tt_fit_transform :: "nat list \<Rightarrow> fval list \<Rightarrow> error + fval list"
  tt_inverse_transform :: "nat list option \<Rightarrow> preds \<Rightarrow> error + preds"

text \<open>
  The attributes of a \<^verbatim>\<open>TimeSeries\<close>. A name of the source that starts with an
  underscore has the prefix \<open>priv_\<close> here: \<open>priv_ga\<close> is \<^verbatim>\<open>self._ga\<close>, the grouped
  array of the observed data, and \<open>ga\<close> is \<^verbatim>\<open>self.ga\<close>, the working copy. A name
  that ends with an underscore has the prefix \<open>fitted_\<close>: \<open>fitted_static_features\<close> is
  \<^verbatim>\<open>self.static_features_\<close> and \<open>fitted_features_order\<close> is
  \<^verbatim>\<open>self.features_order_\<close>. Of the table of static features the columns are held; its
  rows are read by pandas only. \<open>warns\<close> collects what \<^verbatim>\<open>warnings.warn\<close> is called
  with. An attribute that is assigned later has an empty value until then;
  \<open>curr_dates\<close>, which the source tests with \<^verbatim>\<open>hasattr\<close>, is \<open>None\<close> until it is
  assigned.
\<close>

record ts =
  freq :: freq
  lags :: "int list"
  lag_transforms :: "(int \<times> (tfm \<times> int list) list) list"
  date_features :: "date_feature list"
  num_threads :: int
  target_transforms :: "target_transform list option"
  transforms :: "(string \<times> tspec) list"
  warns :: "warning list"
  id_col :: string
  time_col :: string
  target_col :: string
  keep_last_n :: "int option"
  static_features :: "string list option"
  uids :: "uid list"
  last_dates :: "int list"
  restore_idxs :: "nat list"
  ga :: GroupedArray
  priv_ga :: GroupedArray
  fitted_static_features :: "string list"
  fitted_features_order :: "string list"
  max_horizon :: "nat option"
  dropna :: bool
  y_pred :: "fval list list"
  curr_dates :: "int list option"
  test_dates :: "int list list"
  priv_uids :: "uid list"
  priv_idxs :: "nat list option"
  priv_h :: nat

definition date_feature_name :: "date_feature \<Rightarrow> string" where
  "date_feature_name f = (case f of DateAttr s \<Rightarrow> s | DateFn s \<Rightarrow> s)"

text \<open>The properties \<^verbatim>\<open>_date_feature_names\<close> and \<^verbatim>\<open>features\<close>.\<close>

definition date_feature_names :: "ts \<Rightarrow> string list" where
  "date_feature_names s = map date_feature_name (date_features s)"

definition features :: "ts \<Rightarrow> string list" where
  "features s = map fst (transforms s) @ date_feature_names s"

text \<open>
  \<^verbatim>\<open>TimeSeries.__init__\<close>. \<open>to_offset\<close> is \<^verbatim>\<open>pd.tseries.frequencies.to_offset\<close>.
  The arguments that are \<^verbatim>\<open>None\<close> by default are given by their values: no lags is
  \<open>[]\<close>, no lag transforms is \<open>[]\<close>, no date features is \<open>[]\<close>.
\<close>

definition TimeSeries_init ::
  "(string \<Rightarrow> error + (int \<Rightarrow> int \<Rightarrow> int)) \<Rightarrow> freq_arg \<Rightarrow> int list \<Rightarrow>
   (int \<times> (tfm \<times> int list) list) list \<Rightarrow> date_feature list \<Rightarrow> int \<Rightarrow>
   target_transform list option \<Rightarrow> error + ts" where
  "TimeSeries_init to_offset fr lgs lts dfs nthreads tts =
     (case (case fr of
              FreqStr s \<Rightarrow> (case to_offset s of Inl e \<Rightarrow> Inl e | Inr f \<Rightarrow> Inr (Offset f))
            | FreqOffset f \<Rightarrow> Inr (Offset f)
            | FreqInt n \<Rightarrow> Inr (IntFreq n)
            | FreqNone \<Rightarrow> Inr (IntFreq 1)
            | FreqOther \<Rightarrow> Inl UnknownFrequencyType) of
        Inl e \<Rightarrow> Inl e
      | Inr fq \<Rightarrow>
          if \<exists>f \<in> set dfs. f = DateFn ''<lambda>'' then Inl LambdaDateFeature
          else Inr \<lparr>freq = fq, lags = lgs, lag_transforms = lts, date_features = dfs,
                    num_threads = (if nthreads < 1 then 1 else nthreads),
                    target_transforms = tts,
                    transforms = init_transforms lgs lts,
                    warns = (if nthreads < 1 then [NumThreadsWarning] else []),
                    id_col = [], time_col = [], target_col = [], keep_last_n = None,
                    static_features = None, uids = [], last_dates = [], restore_idxs = [],
                    ga = \<lparr>data = [], indptr = []\<rparr>, priv_ga = \<lparr>data = [], indptr = []\<rparr>,
                    fitted_static_features = [], fitted_features_order = [], max_horizon = None,
                    dropna = True, y_pred = [], curr_dates = None, test_dates = [],
                    priv_uids = [], priv_idxs = None, priv_h = 0\<rparr>)"

section \<open>Applying the transforms\<close>

text \<open>
  \<open>tsf\<close> stands for the bound method \<^verbatim>\<open>self.ga.transform_series\<close>: it gets
  \<open>updates_only\<close>, the lag, the function and its arguments, and returns the output
  buffer or raises.
\<close>

type_synonym series_transformer = "bool \<Rightarrow> int \<Rightarrow> transform_fn \<Rightarrow> int list \<Rightarrow> error + fval list"

text \<open>
  \<^verbatim>\<open>_apply_transforms\<close>: the loop over \<^verbatim>\<open>self.transforms.items()\<close>, with the dict
  \<open>results\<close> built so far. An exception of a transform ends the loop.
\<close>

fun apply_transforms_loop ::
  "series_transformer \<Rightarrow> bool \<Rightarrow> int \<Rightarrow> (string \<times> fval list) list \<Rightarrow> (string \<times> tspec) list \<Rightarrow>
   error + (string \<times> fval list) list" where
  "apply_transforms_loop tsf updates_only offset results [] = Inr results"
| "apply_transforms_loop tsf updates_only offset results ((tfm_name, (lag, f, args)) # rest) =
     (case tsf updates_only (lag - offset) (fn_call f) args of
        Inl e \<Rightarrow> Inl e
      | Inr out \<Rightarrow> apply_transforms_loop tsf updates_only offset (dict_set tfm_name out results) rest)"

definition apply_transforms ::
  "series_transformer \<Rightarrow> (string \<times> tspec) list \<Rightarrow> bool \<Rightarrow> error + (string \<times> fval list) list" where
  "apply_transforms tsf tfms updates_only =
     (let offset = (if updates_only then 1 else 0)
      in apply_transforms_loop tsf updates_only offset [] tfms)"

text \<open>
  \<^verbatim>\<open>_apply_multithreaded_transforms\<close>. The first loop submits one task per transform;
  a future holds what its task returned or raised. The second loop takes the futures as
  they complete: \<open>order\<close> is that order, the positions of the futures in the order of
  their submission. \<^verbatim>\<open>future.result()\<close> returns the value or raises the exception of
  the task, as it is.
\<close>

definition submit_all ::
  "series_transformer \<Rightarrow> bool \<Rightarrow> int \<Rightarrow> (string \<times> tspec) list \<Rightarrow> ((error + fval list) \<times> string) list" where
  "submit_all tsf updates_only offset tfms =
     map (\<lambda>(tfm_name, (lag, f, args)). (tsf updates_only (lag - offset) (fn_call f) args, tfm_name)) tfms"

fun collect_completed ::
  "((error + fval list) \<times> string) list \<Rightarrow> (string \<times> fval list) list \<Rightarrow> nat list \<Rightarrow>
   error + (string \<times> fval list) list" where
  "collect_completed future_to_result results [] = Inr results"
| "collect_completed future_to_result results (i # order) =
     (case future_to_result ! i of
        (Inl e, tfm_name) \<Rightarrow> Inl e
      | (Inr out, tfm_name) \<Rightarrow>
          collect_completed future_to_result (dict_set tfm_name out results) order)"

definition apply_multithreaded_transforms ::
  "series_transformer \<Rightarrow> (string \<times> tspec) list \<Rightarrow> bool \<Rightarrow> nat list \<Rightarrow> error + (string \<times> fval list) list" where
  "apply_multithreaded_transforms tsf tfms updates_only order =
     (let offset = (if updates_only then 1 else 0);
          future_to_result = submit_all tsf updates_only offset tfms
      in collect_completed future_to_result [] order)"

text \<open>A completion order of \<open>n\<close> tasks: every task completes once.\<close>

definition completion_order :: "nat \<Rightarrow> nat list \<Rightarrow> bool" where
  "completion_order n order = (distinct order \<and> set order = {0..<n})"

text \<open>\<^verbatim>\<open>_compute_transforms\<close>\<close>

definition compute_transforms :: "ts \<Rightarrow> series_transformer \<Rightarrow> nat list \<Rightarrow> error + (string \<times> fval list) list" where
  "compute_transforms s tsf order =
     (if num_threads s = 1 \<or> length (transforms s) = 1 then apply_transforms tsf (transforms s) False
      else apply_multithreaded_transforms tsf (transforms s) False order)"

section \<open>Fitting and the training table\<close>

text \<open>
  The frame \<open>df\<close> that \<^verbatim>\<open>_fit\<close> gets, by what \<^verbatim>\<open>_fit\<close> reads from it: its columns,
  the number of its rows, the dtype of the time column (\<^verbatim>\<open>is_datetime64_dtype\<close> or
  not; the other dtype that \<^verbatim>\<open>validate_format\<close> lets through is an integer one) and
  the values of the target column, where a null is NaN.
\<close>

datatype time_dtype = Datetime64 | Integer

record frame =
  columns :: "string list"
  n_rows :: nat
  time_dtype :: time_dtype
  target_values :: "fval list"

text \<open>
  What \<^verbatim>\<open>DataFrameProcessor.process\<close> of \<^verbatim>\<open>utilsforecast\<close> returns: the ids, the last
  time of each series, the offsets of the groups and the permutation that sorts the rows
  (\<open>None\<close> when the frame is sorted).
\<close>

record processed =
  p_uids :: "uid list"
  p_times :: "int list"
  p_indptr :: "nat list"
  p_sort_idxs :: "nat list option"

text \<open>numpy's \<^verbatim>\<open>v[idxs]\<close> with an array of indices, and \<^verbatim>\<open>v[mask]\<close> with a boolean mask.\<close>

definition np_take :: "'a list \<Rightarrow> nat list \<Rightarrow> error + 'a list" where
  "np_take v idxs =
     (if \<forall>i \<in> set idxs. i < length v then Inr (map (\<lambda>i. v ! i) idxs) else Inl IndexError)"

definition select_rows :: "bool list \<Rightarrow> 'a list \<Rightarrow> error + 'a list" where
  "select_rows keep xs =
     (if length keep = length xs then Inr (map snd (filter fst (zip keep xs))) else Inl IndexError)"

text \<open>\<^verbatim>\<open>Index.drop(labels)\<close>: a label that is not there is a \<open>KeyError\<close>.\<close>

definition index_drop :: "string list \<Rightarrow> string list \<Rightarrow> error + string list" where
  "index_drop cols labels =
     (case filter (\<lambda>l. l \<notin> set cols) labels of
        [] \<Rightarrow> Inr (filter (\<lambda>c. c \<notin> set labels) cols)
      | l # _ \<Rightarrow> Inl (KeyError l))"

text \<open>
  Lines 202 to 210 of \<^verbatim>\<open>_fit\<close>: the check of the frequency against the dtype of the
  time column.
\<close>

definition check_frequency :: "ts \<Rightarrow> time_dtype \<Rightarrow> error + ts" where
  "check_frequency s dt =
     (if dt = Datetime64 then (if freq_is_one (freq s) then Inl MissingFrequency else Inr s)
      else if \<not> freq_is_one (freq s)
           then Inr (s\<lparr>warns := warns s @ [FreqWarning], freq := IntFreq 1\<rparr>)
           else Inr s)"

text \<open>
  \<^verbatim>\<open>restore_idxs[sort_idxs] = np.arange(n)\<close> on an array of \<open>n\<close> entries: entry
  \<open>sort_idxs[k]\<close> becomes \<open>k\<close>.
\<close>

definition inverse_permutation :: "nat \<Rightarrow> nat list \<Rightarrow> error + nat list" where
  "inverse_permutation n sort_idxs =
     (if length sort_idxs \<noteq> n then Inl ShapeError
      else if \<exists>i \<in> set sort_idxs. n \<le> i then Inl IndexError
      else Inr (fold (\<lambda>k r. r[sort_idxs ! k := k]) [0..<n] (replicate n 0)))"

text \<open>The loop over \<^verbatim>\<open>self.target_transforms\<close> in \<^verbatim>\<open>_fit\<close>.\<close>

fun fit_target_transforms :: "target_transform list \<Rightarrow> nat list \<Rightarrow> fval list \<Rightarrow> error + fval list" where
  "fit_target_transforms [] ptr vals = Inr vals"
| "fit_target_transforms (t # tts) ptr vals =
     (case tt_fit_transform t ptr vals of
        Inl e \<Rightarrow> Inl e
      | Inr vals' \<Rightarrow> fit_target_transforms tts ptr vals')"

text \<open>
  Lines 211 to 250 of \<^verbatim>\<open>_fit\<close>. \<open>process\<close> is \<^verbatim>\<open>DataFrameProcessor.process\<close>.
  The cast of the data to \<^verbatim>\<open>float32\<close> has no counterpart, the values being reals; of
  the table of static features the columns are kept.
\<close>

definition fit_store ::
  "(frame \<Rightarrow> processed) \<Rightarrow> ts \<Rightarrow> frame \<Rightarrow> string \<Rightarrow> string \<Rightarrow> string \<Rightarrow> string list option \<Rightarrow>
   int option \<Rightarrow> error + ts" where
  "fit_store process s df idc timec targetc statics keep =
     (let s1 = s\<lparr>id_col := idc, target_col := targetc, time_col := timec, keep_last_n := keep,
                  static_features := statics\<rparr>;
          p = process df
      in case (case p_sort_idxs p of
                 Some sort_idxs \<Rightarrow>
                   (case inverse_permutation (n_rows df) sort_idxs of
                      Inl e \<Rightarrow> Inl e
                    | Inr r \<Rightarrow> (case np_take (target_values df) sort_idxs of
                                 Inl e \<Rightarrow> Inl e
                               | Inr sorted_vals \<Rightarrow> Inr (r, sorted_vals)))
               | None \<Rightarrow> Inr ([0..<n_rows df], target_values df)) of
           Inl e \<Rightarrow> Inl e
         | Inr (restore, sorted_vals) \<Rightarrow>
             (case (case target_transforms s1 of
                      None \<Rightarrow> Inr sorted_vals
                    | Some tts \<Rightarrow> fit_target_transforms tts (p_indptr p) sorted_vals) of
                Inl e \<Rightarrow> Inl e
              | Inr dat \<Rightarrow>
                  (case (case statics of
                           None \<Rightarrow> (case index_drop (columns df) [timec, targetc] of
                                      Inl e \<Rightarrow> Inl e
                                    | Inr cs \<Rightarrow> Inr (cs, [idc, timec, targetc]))
                         | Some sf \<Rightarrow>
                             if idc \<notin> set sf then Inr (idc # sf, [idc, timec, targetc])
                             else Inr (sf, [timec, targetc])) of
                     Inl e \<Rightarrow> Inl e
                   | Inr (sf, to_drop) \<Rightarrow>
                       (case filter (\<lambda>c. c \<notin> set (columns df)) sf of
                          c # _ \<Rightarrow> Inl (KeyError c)
                        | [] \<Rightarrow>
                            (case index_drop (columns df) to_drop of
                               Inl e \<Rightarrow> Inl e
                             | Inr others \<Rightarrow>
                                 Inr (s1\<lparr>uids := p_uids p, last_dates := p_times p,
                                         restore_idxs := restore,
                                         ga := \<lparr>data = dat, indptr = p_indptr p\<rparr>,
                                         priv_ga := \<lparr>data = dat, indptr = p_indptr p\<rparr>,
                                         fitted_static_features := sf,
                                         fitted_features_order := others @ features s1\<rparr>))))))"

text \<open>
  \<^verbatim>\<open>_fit\<close>. \<open>validate_format\<close> is the function of \<^verbatim>\<open>utilsforecast\<close>, which raises
  or returns nothing.
\<close>

definition fit ::
  "(frame \<Rightarrow> error option) \<Rightarrow> (frame \<Rightarrow> processed) \<Rightarrow> ts \<Rightarrow> frame \<Rightarrow> string \<Rightarrow> string \<Rightarrow> string \<Rightarrow>
   string list option \<Rightarrow> int option \<Rightarrow> error + ts" where
  "fit validate_format process s df idc timec targetc statics keep =
     (case validate_format df of
        Some e \<Rightarrow> Inl e
      | None \<Rightarrow>
          if \<exists>v \<in> set (target_values df). isnan v then Inl NullTarget
          else case check_frequency s (time_dtype df) of
                 Inl e \<Rightarrow> Inl e
               | Inr s' \<Rightarrow> fit_store process s' df idc timec targetc statics keep)"

subsection \<open>\<^verbatim>\<open>_transform\<close>\<close>

text \<open>
  The target is an array of one dimension, or of two dimensions when \<^verbatim>\<open>max_horizon\<close>
  is given: one row of that width per observation.
\<close>

datatype target = Target1 "fval list" | Target2 "fval list list"

text \<open>
  The first part of \<^verbatim>\<open>_transform\<close>: the features, each reordered by
  \<^verbatim>\<open>restore_idxs\<close>, and the target, reordered too. \<open>tsf\<close> is the method
  \<^verbatim>\<open>transform_series\<close> of the class of grouped arrays and \<open>order\<close> the completion
  order of the tasks when the transforms run in threads.
\<close>

fun restore_all :: "nat list \<Rightarrow> (string \<times> fval list) list \<Rightarrow> error + (string \<times> fval list) list" where
  "restore_all idxs [] = Inr []"
| "restore_all idxs ((k, v) # kvs) =
     (case np_take v idxs of
        Inl e \<Rightarrow> Inl e
      | Inr v' \<Rightarrow> (case restore_all idxs kvs of Inl e \<Rightarrow> Inl e | Inr kvs' \<Rightarrow> Inr ((k, v') # kvs')))"

definition restored_features ::
  "(GroupedArray \<Rightarrow> series_transformer) \<Rightarrow> nat list \<Rightarrow> ts \<Rightarrow> error + (string \<times> fval list) list" where
  "restored_features tsf order s =
     (case compute_transforms s (tsf (ga s)) order of
        Inl e \<Rightarrow> Inl e
      | Inr results \<Rightarrow> restore_all (restore_idxs s) results)"

definition restored_target :: "ts \<Rightarrow> nat option \<Rightarrow> error + target" where
  "restored_target s mh =
     (case mh of
        None \<Rightarrow> (case np_take (data (ga s)) (restore_idxs s) of
                   Inl e \<Rightarrow> Inl e
                 | Inr t \<Rightarrow> Inr (Target1 t))
      | Some h \<Rightarrow> (case np_take (expand_target (data (ga s)) (indptr (ga s)) h) (restore_idxs s) of
                     Inl e \<Rightarrow> Inl e
                   | Inr t \<Rightarrow> Inr (Target2 t)))"

text \<open>
  The loop \<^verbatim>\<open>feature_nulls |= np.isnan(feature_vals)\<close>; the arrays must have the
  length of \<open>feature_nulls\<close>.
\<close>

fun or_nulls :: "bool list \<Rightarrow> fval list list \<Rightarrow> error + bool list" where
  "or_nulls nulls [] = Inr nulls"
| "or_nulls nulls (v # vs) =
     (if length v \<noteq> length nulls then Inl ShapeError
      else or_nulls (map (\<lambda>(a, b). a \<or> b) (zip nulls (map isnan v))) vs)"

text \<open>
  \<^verbatim>\<open>np.isnan(target)\<close>, and for two dimensions \<^verbatim>\<open>target_nulls.all(axis=1)\<close>: a row
  counts when all its values are NaN.
\<close>

definition target_nulls :: "target \<Rightarrow> bool list" where
  "target_nulls t =
     (case t of
        Target1 vals \<Rightarrow> map isnan vals
      | Target2 rows \<Rightarrow> map (\<lambda>row. list_all isnan row) rows)"

definition select_target :: "bool list \<Rightarrow> target \<Rightarrow> error + target" where
  "select_target keep t =
     (case t of
        Target1 vals \<Rightarrow> (case select_rows keep vals of Inl e \<Rightarrow> Inl e | Inr v \<Rightarrow> Inr (Target1 v))
      | Target2 rows \<Rightarrow> (case select_rows keep rows of Inl e \<Rightarrow> Inl e | Inr r \<Rightarrow> Inr (Target2 r)))"

text \<open>
  The result of \<^verbatim>\<open>_transform\<close>: the rows of \<open>df\<close> that are kept, the columns of the
  features and the target. The date features, which are computed from the kept rows, and
  the two ways of returning the target (beside the table or as its columns) add columns
  only and are left out.
\<close>

record 'r transformed =
  t_rows :: "'r list"
  t_features :: "(string \<times> fval list) list"
  t_target :: target

text \<open>
  The loop \<^verbatim>\<open>df[feat] = features[feat][keep_rows]\<close> over the names of the registry;
  \<open>cols\<close> are the columns assigned so far.
\<close>

fun feature_columns ::
  "bool list \<Rightarrow> (string \<times> fval list) list \<Rightarrow> (string \<times> fval list) list \<Rightarrow> string list \<Rightarrow>
   error + (string \<times> fval list) list" where
  "feature_columns keep feats cols [] = Inr cols"
| "feature_columns keep feats cols (feat # names) =
     (case map_of feats feat of
        None \<Rightarrow> Inl (KeyError feat)
      | Some v \<Rightarrow>
          (case select_rows keep v of
             Inl e \<Rightarrow> Inl e
           | Inr v' \<Rightarrow> feature_columns keep feats (dict_set feat v' cols) names))"

text \<open>
  Lines 334 to 353 of \<^verbatim>\<open>_transform\<close>: the rows to keep, and the selection of the rows
  of the frame, of the target and of the features.
\<close>

definition keep_rows_of :: "nat \<Rightarrow> (string \<times> fval list) list \<Rightarrow> target \<Rightarrow> error + bool list" where
  "keep_rows_of n feats t =
     (case or_nulls (replicate n False) (map snd feats) of
        Inl e \<Rightarrow> Inl e
      | Inr feature_nulls \<Rightarrow>
          if length (target_nulls t) \<noteq> n then Inl ShapeError
          else Inr (map (\<lambda>(a, b). \<not> (a \<or> b)) (zip feature_nulls (target_nulls t))))"

definition filter_rows ::
  "bool \<Rightarrow> 'r list \<Rightarrow> (string \<times> fval list) list \<Rightarrow> target \<Rightarrow> string list \<Rightarrow> error + 'r transformed" where
  "filter_rows do_drop df feats t names =
     (case (if do_drop
            then (case keep_rows_of (length df) feats t of
                    Inl e \<Rightarrow> Inl e
                  | Inr keep \<Rightarrow>
                      (case select_rows keep df of
                         Inl e \<Rightarrow> Inl e
                       | Inr df' \<Rightarrow> (case select_target keep t of
                                      Inl e \<Rightarrow> Inl e
                                    | Inr t' \<Rightarrow> Inr (keep, df', t'))))
            else Inr (replicate (length df) True, df, t)) of
        Inl e \<Rightarrow> Inl e
      | Inr (keep, df', t') \<Rightarrow>
          (case feature_columns keep feats [] names of
             Inl e \<Rightarrow> Inl e
           | Inr cols \<Rightarrow> Inr \<lparr>t_rows = df', t_features = cols, t_target = t'\<rparr>))"

definition transform_df ::
  "(GroupedArray \<Rightarrow> series_transformer) \<Rightarrow> nat list \<Rightarrow> ts \<Rightarrow> 'r list \<Rightarrow> bool \<Rightarrow> nat option \<Rightarrow>
   error + ts \<times> 'r transformed" where
  "transform_df tsf order s df do_drop mh =
     (case restored_features tsf order s of
        Inl e \<Rightarrow> Inl e
      | Inr feats \<Rightarrow>
          (case restored_target s mh of
             Inl e \<Rightarrow> Inl e
           | Inr t \<Rightarrow>
               (case filter_rows do_drop df feats t (map fst (transforms s)) of
                  Inl e \<Rightarrow> Inl e
                | Inr out \<Rightarrow> Inr (s\<lparr>max_horizon := mh\<rparr>, out))))"

text \<open>\<^verbatim>\<open>fit_transform\<close>\<close>

definition fit_transform ::
  "(frame \<Rightarrow> error option) \<Rightarrow> (frame \<Rightarrow> processed) \<Rightarrow> (GroupedArray \<Rightarrow> series_transformer) \<Rightarrow>
   nat list \<Rightarrow> ts \<Rightarrow> frame \<Rightarrow> 'r list \<Rightarrow> string \<Rightarrow> string \<Rightarrow> string \<Rightarrow> string list option \<Rightarrow> bool \<Rightarrow>
   int option \<Rightarrow> nat option \<Rightarrow> error + ts \<times> 'r transformed" where
  "fit_transform validate_format process tsf order s df rows idc timec targetc statics do_drop keep mh =
     (case fit validate_format process (s\<lparr>dropna := do_drop\<rparr>) df idc timec targetc statics keep of
        Inl e \<Rightarrow> Inl e
      | Inr s' \<Rightarrow> transform_df tsf order s' rows do_drop mh)"

text \<open>
  A null row, in the words of the specification: some feature is NaN in the row, or the
  target of the row is null; with a target of several horizons the target of a row is null
  when it is null for every horizon.
\<close>

definition null_row :: "(string \<times> fval list) list \<Rightarrow> target \<Rightarrow> nat \<Rightarrow> bool" where
  "null_row feats t i =
     ((\<exists>(name, v) \<in> set feats. isnan (v ! i))
      \<or> (case t of Target1 vals \<Rightarrow> isnan (vals ! i)
                   | Target2 rows \<Rightarrow> (\<forall>x \<in> set (rows ! i). isnan x)))"

definition target_rows :: "target \<Rightarrow> nat" where
  "target_rows t = (case t of Target1 vals \<Rightarrow> length vals | Target2 rows \<Rightarrow> length rows)"

text \<open>The entries of a list at the positions \<open>is\<close>, and the same for a target.\<close>

definition rows_at :: "nat list \<Rightarrow> 'a list \<Rightarrow> 'a list" where
  "rows_at is xs = map (\<lambda>i. xs ! i) is"

definition target_at :: "nat list \<Rightarrow> target \<Rightarrow> target" where
  "target_at is t =
     (case t of Target1 vals \<Rightarrow> Target1 (rows_at is vals) | Target2 rows \<Rightarrow> Target2 (rows_at is rows))"

section \<open>Forecasting\<close>

text \<open>
  The frame \<^verbatim>\<open>X_df\<close> of exogenous features: its columns, and for each row the id, the
  time and the rest of the row.
\<close>

record 'x exog =
  x_columns :: "string list"
  x_rows :: "(uid \<times> int \<times> 'x) list"

text \<open>
  A model is an estimator with a method \<^verbatim>\<open>predict\<close>, which gets the table of features
  and returns an array or raises, or a list of such estimators, one per step of the
  horizon.
\<close>

datatype 'tbl model = Single "'tbl \<Rightarrow> error + fval list" | PerHorizon "('tbl \<Rightarrow> error + fval list) list"

text \<open>
  The table of features of one step is built by pandas. \<open>assemble\<close> stands for the
  lines that build it: the date features of the current dates, the frame of the features,
  its merge with the table of static features and with the dynamic frames, and the rows of
  \<^verbatim>\<open>X_df\<close> for the step beside it. \<open>null_columns\<close> gives the names of the columns with
  a null (\<^verbatim>\<open>new_x.isnull().any()\<close>), \<open>select_columns\<close> is \<^verbatim>\<open>new_x[columns]\<close> and
  \<open>table_rows\<close> is \<^verbatim>\<open>new_x.shape[0]\<close>.
\<close>

record ('tbl, 'x) env =
  assemble :: "ts \<Rightarrow> (string \<times> fval list) list \<Rightarrow> 'x list option \<Rightarrow> error + 'tbl"
  null_columns :: "'tbl \<Rightarrow> string list"
  select_columns :: "'tbl \<Rightarrow> string list \<Rightarrow> error + 'tbl"
  table_rows :: "'tbl \<Rightarrow> nat"

text \<open>\<^verbatim>\<open>_update_y\<close>\<close>

definition update_y :: "ts \<Rightarrow> fval list \<Rightarrow> error + ts" where
  "update_y s new =
     (case ga_append (ga s) new of
        Inl e \<Rightarrow> Inl e
      | Inr g \<Rightarrow> Inr (s\<lparr>y_pred := y_pred s @ [new], ga := g\<rparr>))"

text \<open>
  \<^verbatim>\<open>_update_features\<close>, up to the dict of the features of the transforms; the rest of
  it is in \<open>assemble\<close>.
\<close>

definition update_features ::
  "(GroupedArray \<Rightarrow> series_transformer) \<Rightarrow> nat list \<Rightarrow> ts \<Rightarrow> error + ts \<times> (string \<times> fval list) list" where
  "update_features tsf order s =
     (let (curr0, test0) = (case curr_dates s of
                              None \<Rightarrow> (last_dates s, [])
                            | Some c \<Rightarrow> (c, test_dates s));
          curr = map (add_freq (freq s) 1) curr0;
          s1 = s\<lparr>curr_dates := Some curr, test_dates := test0 @ [curr]\<rparr>
      in case (if num_threads s = 1 \<or> length (transforms s) = 1
               then apply_transforms (tsf (ga s)) (transforms s) True
               else apply_multithreaded_transforms (tsf (ga s)) (transforms s) True order) of
           Inl e \<Rightarrow> Inl e
         | Inr feats \<Rightarrow> Inr (s1, feats))"

text \<open>\<^verbatim>\<open>_get_features_for_next_step\<close>\<close>

definition get_features_for_next_step ::
  "('tbl, 'x) env \<Rightarrow> (GroupedArray \<Rightarrow> series_transformer) \<Rightarrow> nat list \<Rightarrow> ts \<Rightarrow> 'x list option \<Rightarrow>
   error + ts \<times> 'tbl" where
  "get_features_for_next_step en tsf order s X_df =
     (case update_features tsf order s of
        Inl e \<Rightarrow> Inl e
      | Inr (s1, feats) \<Rightarrow>
          (let n_series = length (priv_uids s1);
               X = map_option (\<lambda>rows. slice rows (priv_h s1 * n_series) ((priv_h s1 + 1) * n_series)) X_df
           in case assemble en s1 feats X of
                Inl e \<Rightarrow> Inl e
              | Inr new_x \<Rightarrow>
                  (let s2 = (if null_columns en new_x \<noteq> []
                             then s1\<lparr>warns := warns s1 @ [NullsWarning (null_columns en new_x)]\<rparr>
                             else s1);
                       s3 = s2\<lparr>priv_h := priv_h s2 + 1\<rparr>
                   in case select_columns en new_x (fitted_features_order s3) of
                        Inl e \<Rightarrow> Inl e
                      | Inr x \<Rightarrow> Inr (s3, x))))"

text \<open>\<^verbatim>\<open>_predict_setup\<close>\<close>

definition predict_setup :: "ts \<Rightarrow> error + ts" where
  "predict_setup s =
     (case (case priv_idxs s of
              None \<Rightarrow> Inr (priv_ga s, last_dates s)
            | Some idxs \<Rightarrow>
                (case ga_take (priv_ga s) idxs of
                   Inl e \<Rightarrow> Inl e
                 | Inr g \<Rightarrow> (case np_take (last_dates s) idxs of
                              Inl e \<Rightarrow> Inl e
                            | Inr c \<Rightarrow> Inr (g, c)))) of
        Inl e \<Rightarrow> Inl e
      | Inr (g, c) \<Rightarrow>
          Inr (s\<lparr>ga := (case keep_last_n s of
                          None \<Rightarrow> g
                        | Some k \<Rightarrow> take_from_groups g (- k)),
                 curr_dates := Some c, test_dates := [], y_pred := [], priv_h := 0\<rparr>))"

text \<open>
  \<^verbatim>\<open>np.array(rows).ravel("F")\<close> for a list of arrays of one length: entry \<open>j\<close> of every
  array, for \<open>j\<close> from 0 on. \<^verbatim>\<open>_get_raw_predictions\<close> applies it to \<^verbatim>\<open>y_pred\<close>.
\<close>

definition ravel_F :: "'a list list \<Rightarrow> 'a list" where
  "ravel_F rows =
     (case rows of
        [] \<Rightarrow> []
      | r # _ \<Rightarrow> concat (map (\<lambda>j. map (\<lambda>row. row ! j) rows) [0..<length r]))"

definition get_raw_predictions :: "ts \<Rightarrow> fval list" where
  "get_raw_predictions s = ravel_F (y_pred s)"

text \<open>
  \<^verbatim>\<open>_get_predictions\<close>; the columns of a frame must have one length. The id and time
  columns are kept apart from the columns of the models.
\<close>

definition get_predictions :: "ts \<Rightarrow> error + preds" where
  "get_predictions s =
     (let n_preds = length (y_pred s);
          us = concat (map (replicate n_preds) (priv_uids s));
          times = ravel_F (test_dates s);
          vals = get_raw_predictions s
      in if length times = length us \<and> length vals = length us
         then Inr \<lparr>pr_ids = us, pr_time = times, pr_cols = [(target_col s @ ''_pred'', vals)]\<rparr>
         else Inl ShapeError)"

text \<open>\<^verbatim>\<open>preds.rename(columns={old: new})\<close> on the columns of the models.\<close>

definition rename_column :: "string \<Rightarrow> string \<Rightarrow> (string \<times> fval list) list \<Rightarrow> (string \<times> fval list) list" where
  "rename_column old new cols = map (\<lambda>(k, v). (if k = old then new else k, v)) cols"

text \<open>
  The body of the loop over the steps in \<^verbatim>\<open>_predict_recursive\<close>. The callback after
  the prediction gets the series of the predictions indexed by the ids, which needs one
  prediction per id, and the values of what it returns are taken.
\<close>

definition predict_step ::
  "('tbl, 'x) env \<Rightarrow> (GroupedArray \<Rightarrow> series_transformer) \<Rightarrow> nat list \<Rightarrow> ('tbl \<Rightarrow> error + 'tbl) option \<Rightarrow>
   (uid list \<Rightarrow> fval list \<Rightarrow> error + fval list) option \<Rightarrow> 'x list option \<Rightarrow> 'tbl model \<Rightarrow> ts \<Rightarrow> error + ts" where
  "predict_step en tsf order before_cb after_cb X_df m s =
     (case get_features_for_next_step en tsf order s X_df of
        Inl e \<Rightarrow> Inl e
      | Inr (s1, new_x) \<Rightarrow>
          (case (case before_cb of None \<Rightarrow> Inr new_x | Some cb \<Rightarrow> cb new_x) of
             Inl e \<Rightarrow> Inl e
           | Inr new_x' \<Rightarrow>
               (case (case m of Single p \<Rightarrow> p new_x' | PerHorizon ms \<Rightarrow> Inl AttributeError) of
                  Inl e \<Rightarrow> Inl e
                | Inr predictions \<Rightarrow>
                    (case (case after_cb of
                             None \<Rightarrow> Inr predictions
                           | Some cb \<Rightarrow>
                               if length predictions \<noteq> length (priv_uids s1) then Inl ShapeError
                               else cb (priv_uids s1) predictions) of
                       Inl e \<Rightarrow> Inl e
                     | Inr predictions' \<Rightarrow> update_y s1 predictions'))))"

fun predict_steps ::
  "nat \<Rightarrow> ('tbl, 'x) env \<Rightarrow> (GroupedArray \<Rightarrow> series_transformer) \<Rightarrow> nat list \<Rightarrow> ('tbl \<Rightarrow> error + 'tbl) option \<Rightarrow>
   (uid list \<Rightarrow> fval list \<Rightarrow> error + fval list) option \<Rightarrow> 'x list option \<Rightarrow> 'tbl model \<Rightarrow> ts \<Rightarrow> error + ts" where
  "predict_steps 0 en tsf order before_cb after_cb X_df m s = Inr s"
| "predict_steps (Suc k) en tsf order before_cb after_cb X_df m s =
     (case predict_step en tsf order before_cb after_cb X_df m s of
        Inl e \<Rightarrow> Inl e
      | Inr s' \<Rightarrow> predict_steps k en tsf order before_cb after_cb X_df m s')"

text \<open>
  The loop over the models in \<^verbatim>\<open>_predict_recursive\<close>: \<open>acc\<close> is the variable
  \<open>preds\<close>, which is not bound before the first model (\<open>i == 0\<close>).
\<close>

fun predict_models ::
  "('tbl, 'x) env \<Rightarrow> (GroupedArray \<Rightarrow> series_transformer) \<Rightarrow> nat list \<Rightarrow> int \<Rightarrow> ('tbl \<Rightarrow> error + 'tbl) option \<Rightarrow>
   (uid list \<Rightarrow> fval list \<Rightarrow> error + fval list) option \<Rightarrow> 'x list option \<Rightarrow> (string \<times> 'tbl model) list \<Rightarrow>
   preds option \<Rightarrow> ts \<Rightarrow> error + preds option \<times> ts" where
  "predict_models en tsf order horizon before_cb after_cb X_df [] acc s = Inr (acc, s)"
| "predict_models en tsf order horizon before_cb after_cb X_df ((name, m) # rest) acc s =
     (case predict_setup s of
        Inl e \<Rightarrow> Inl e
      | Inr s0 \<Rightarrow>
          (case predict_steps (nat horizon) en tsf order before_cb after_cb X_df m s0 of
             Inl e \<Rightarrow> Inl e
           | Inr s1 \<Rightarrow>
               (case acc of
                  None \<Rightarrow>
                    (case get_predictions s1 of
                       Inl e \<Rightarrow> Inl e
                     | Inr p \<Rightarrow>
                         predict_models en tsf order horizon before_cb after_cb X_df rest
                           (Some (p\<lparr>pr_cols := rename_column (target_col s1 @ ''_pred'') name (pr_cols p)\<rparr>))
                           s1)
                | Some p \<Rightarrow>
                    if length (get_raw_predictions s1) \<noteq> length (pr_ids p) then Inl ShapeError
                    else predict_models en tsf order horizon before_cb after_cb X_df rest
                           (Some (p\<lparr>pr_cols := dict_set name (get_raw_predictions s1) (pr_cols p)\<rparr>)) s1)))"

text \<open>\<^verbatim>\<open>_predict_recursive\<close>; without a model \<open>preds\<close> is not bound at the return.\<close>

definition predict_recursive ::
  "('tbl, 'x) env \<Rightarrow> (GroupedArray \<Rightarrow> series_transformer) \<Rightarrow> nat list \<Rightarrow> ts \<Rightarrow> (string \<times> 'tbl model) list \<Rightarrow> int \<Rightarrow>
   ('tbl \<Rightarrow> error + 'tbl) option \<Rightarrow> (uid list \<Rightarrow> fval list \<Rightarrow> error + fval list) option \<Rightarrow> 'x list option \<Rightarrow>
   error + preds \<times> ts" where
  "predict_recursive en tsf order s models horizon before_cb after_cb X_df =
     (case predict_models en tsf order horizon before_cb after_cb X_df models None s of
        Inl e \<Rightarrow> Inl e
      | Inr (None, s') \<Rightarrow> Inl UnboundLocalError
      | Inr (Some p, s') \<Rightarrow> Inr (p, s'))"

text \<open>
  \<^verbatim>\<open>predictions[:, i] = p\<close> on an array of \<open>n\<close> rows: numpy takes an array of \<open>n\<close>
  values, or broadcasts an array of one value.
\<close>

definition assign_column :: "nat \<Rightarrow> fval list \<Rightarrow> error + fval list" where
  "assign_column n p =
     (if length p = n then Inr p
      else if length p = 1 then Inr (replicate n (hd p))
      else Inl ShapeError)"

text \<open>\<^verbatim>\<open>model[i].predict(new_x)\<close>\<close>

definition predict_horizon :: "'tbl model \<Rightarrow> nat \<Rightarrow> 'tbl \<Rightarrow> error + fval list" where
  "predict_horizon m i new_x =
     (case m of
        Single p \<Rightarrow> Inl TypeError
      | PerHorizon ms \<Rightarrow> if i < length ms then (ms ! i) new_x else Inl IndexError)"

text \<open>
  \<^verbatim>\<open>predictions.ravel()\<close> of the array whose columns are \<open>cols\<close>, each of \<open>n\<close>
  values: row after row.
\<close>

definition ravel_rows :: "nat \<Rightarrow> 'a list list \<Rightarrow> 'a list" where
  "ravel_rows n cols = concat (map (\<lambda>r. map (\<lambda>col. col ! r) cols) [0..<n])"

text \<open>
  Lines 539 to 542 of \<^verbatim>\<open>_predict_multi\<close>: the array \<open>predictions\<close>, whose column
  \<open>i\<close> is what the model of step \<open>i\<close> predicts from \<open>new_x\<close>, raveled.
\<close>

definition horizon_predictions :: "('tbl, 'x) env \<Rightarrow> 'tbl model \<Rightarrow> int \<Rightarrow> 'tbl \<Rightarrow> error + fval list" where
  "horizon_predictions en m horizon new_x =
     (case collect (\<lambda>i. case predict_horizon m i new_x of
                           Inl e \<Rightarrow> Inl e
                         | Inr p \<Rightarrow> assign_column (table_rows en new_x) p)
             [0..<nat horizon] of
        Inl e \<Rightarrow> Inl e
      | Inr cols \<Rightarrow> Inr (ravel_rows (table_rows en new_x) cols))"

text \<open>The loop over the models in \<^verbatim>\<open>_predict_multi\<close>; \<open>result\<close> is the frame built so far.\<close>

fun multi_models ::
  "('tbl, 'x) env \<Rightarrow> (GroupedArray \<Rightarrow> series_transformer) \<Rightarrow> nat list \<Rightarrow> int \<Rightarrow> ('tbl \<Rightarrow> error + 'tbl) option \<Rightarrow>
   'x list option \<Rightarrow> (string \<times> 'tbl model) list \<Rightarrow> preds \<Rightarrow> ts \<Rightarrow> error + preds \<times> ts" where
  "multi_models en tsf order horizon before_cb X_df [] result s = Inr (result, s)"
| "multi_models en tsf order horizon before_cb X_df ((name, m) # rest) result s =
     (case predict_setup s of
        Inl e \<Rightarrow> Inl e
      | Inr s0 \<Rightarrow>
          (case get_features_for_next_step en tsf order s0 X_df of
             Inl e \<Rightarrow> Inl e
           | Inr (s1, new_x) \<Rightarrow>
               (case (case before_cb of None \<Rightarrow> Inr new_x | Some cb \<Rightarrow> cb new_x) of
                  Inl e \<Rightarrow> Inl e
                | Inr new_x' \<Rightarrow>
                    (case horizon_predictions en m horizon new_x' of
                       Inl e \<Rightarrow> Inl e
                     | Inr raw_preds \<Rightarrow>
                         if length raw_preds \<noteq> length (pr_ids result) then Inl ShapeError
                         else multi_models en tsf order horizon before_cb X_df rest
                                (result\<lparr>pr_cols := dict_set name raw_preds (pr_cols result)\<rparr>) s1))))"

text \<open>
  \<^verbatim>\<open>_predict_multi\<close>. \<^verbatim>\<open>np.hstack\<close> raises on an empty list, and the frame
  \<open>result\<close> needs as many dates as ids.
\<close>

definition predict_multi ::
  "('tbl, 'x) env \<Rightarrow> (GroupedArray \<Rightarrow> series_transformer) \<Rightarrow> nat list \<Rightarrow> ts \<Rightarrow> (string \<times> 'tbl model) list \<Rightarrow> int \<Rightarrow>
   ('tbl \<Rightarrow> error + 'tbl) option \<Rightarrow> 'x list option \<Rightarrow> error + preds \<times> ts" where
  "predict_multi en tsf order s models horizon before_cb X_df =
     (case max_horizon s of
        None \<Rightarrow> Inl AssertionError
      | Some mh \<Rightarrow>
          if horizon > int mh then Inl HorizonTooLarge
          else (let us = concat (map (replicate (nat horizon)) (priv_uids s));
                    dates = concat (map (\<lambda>date. map (\<lambda>i. add_freq (freq s) (int i + 1) date)
                                                    [0..<nat horizon])
                                        (last_dates s))
                in if dates = [] then Inl (Raised ''need at least one array to concatenate'')
                   else if length us \<noteq> length dates then Inl ShapeError
                   else multi_models en tsf order horizon before_cb X_df models
                          \<lparr>pr_ids = us, pr_time = dates, pr_cols = []\<rparr> s))"

subsection \<open>\<^verbatim>\<open>predict\<close>\<close>

text \<open>
  The ids to forecast: \<^verbatim>\<open>self._uids\<close>, \<^verbatim>\<open>self._idxs\<close> and the last dates of those
  ids.
\<close>

definition select_ids :: "ts \<Rightarrow> uid list option \<Rightarrow> error + uid list \<times> nat list option \<times> int list" where
  "select_ids s ids =
     (case ids of
        None \<Rightarrow> Inr (uids s, None, last_dates s)
      | Some wanted \<Rightarrow>
          (let unseen = filter (\<lambda>u. u \<notin> set (uids s)) wanted
           in if unseen \<noteq> [] then Inl (UnseenIds (remdups unseen))
              else (let us = filter (\<lambda>u. u \<in> set wanted) (uids s);
                        idxs = filter (\<lambda>i. uids s ! i \<in> set us) [0..<length (uids s)]
                    in case np_take (last_dates s) idxs of
                         Inl e \<Rightarrow> Inl e
                       | Inr lds \<Rightarrow> Inr (us, Some idxs, lds))))"

text \<open>
  The columns that \<^verbatim>\<open>X_df\<close> has in common with the static features, the id and time
  columns apart; a pandas index has each name once here.
\<close>

definition common_columns :: "ts \<Rightarrow> 'x exog \<Rightarrow> string list" where
  "common_columns s X =
     (let statics = filter (\<lambda>c. c \<noteq> id_col s) (fitted_static_features s);
          dynamics = filter (\<lambda>c. c \<noteq> id_col s \<and> c \<noteq> time_col s) (x_columns X)
      in filter (\<lambda>c. c \<in> set dynamics) (remdups statics))"

text \<open>
  The rows of \<^verbatim>\<open>X_df\<close> in the forecast window: the inner merge with the frame of the
  ids, \<open>_start\<close> and \<open>_end\<close> (each row of \<^verbatim>\<open>X_df\<close> with every row of that frame
  that has its id), and of those the rows whose time is between \<open>_start\<close> and \<open>_end\<close>,
  both included.
\<close>

definition window_rows :: "ts \<Rightarrow> uid list \<Rightarrow> int list \<Rightarrow> int \<Rightarrow> 'x exog \<Rightarrow> (uid \<times> int \<times> 'x) list" where
  "window_rows s us lds horizon X =
     (let dates_validation = map (\<lambda>(u, d). (u, add_freq (freq s) 1 d, add_freq (freq s) horizon d))
                                 (zip us lds);
          merged = concat (map (\<lambda>(u, t, x). map (\<lambda>(u', start, end). (u, t, x, start, end))
                                                  (filter (\<lambda>(u', start, end). u' = u) dates_validation))
                               (x_rows X))
      in map (\<lambda>(u, t, x, start, end). (u, t, x))
             (filter (\<lambda>(u, t, x, start, end). start \<le> t \<and> t \<le> end) merged))"

text \<open>
  The checks of \<^verbatim>\<open>X_df\<close> in \<^verbatim>\<open>predict\<close>, lines 569 to 601, and the rows that go to
  the forecasting loop, sorted by id and time. \<^verbatim>\<open>Index.drop\<close> raises when the id
  column is not among the static features, and the merge renames a column \<open>_start\<close> or
  \<open>_end\<close> of \<^verbatim>\<open>X_df\<close>, after which \<^verbatim>\<open>X_df["_start"]\<close> is a \<open>KeyError\<close>.
\<close>

definition validate_exog :: "ts \<Rightarrow> uid list \<Rightarrow> int list \<Rightarrow> int \<Rightarrow> 'x exog \<Rightarrow> error + 'x list" where
  "validate_exog s us lds horizon X =
     (if id_col s \<notin> set (x_columns X) \<or> time_col s \<notin> set (x_columns X) then Inl MissingIdTimeColumns
      else if length (x_columns X) < 3 then Inl NoExogenousFeatures
      else if id_col s \<notin> set (fitted_static_features s) then Inl (KeyError (id_col s))
      else if common_columns s X \<noteq> [] then Inl (StaticDynamicConflict (common_columns s X))
      else if ''_start'' \<in> set (x_columns X) then Inl (KeyError ''_start'')
      else if ''_end'' \<in> set (x_columns X) then Inl (KeyError ''_end'')
      else if int (length (window_rows s us lds horizon X)) \<noteq> int (length us) * horizon
           then Inl MissingExogenousRows
      else Inr (map (\<lambda>(u, t, x). x) (sort_key (\<lambda>(u, t, x). (u, t)) (window_rows s us lds horizon X))))"

text \<open>The loop over the target transforms, in reverse order, at the end of \<^verbatim>\<open>predict\<close>.\<close>

fun inverse_target_transforms :: "target_transform list \<Rightarrow> nat list option \<Rightarrow> preds \<Rightarrow> error + preds" where
  "inverse_target_transforms [] idxs p = Inr p"
| "inverse_target_transforms (t # tts) idxs p =
     (case tt_inverse_transform t idxs p of
        Inl e \<Rightarrow> Inl e
      | Inr p' \<Rightarrow> inverse_target_transforms tts idxs p')"

text \<open>
  \<^verbatim>\<open>predict\<close>. The attributes \<^verbatim>\<open>_uids\<close> and \<^verbatim>\<open>_idxs\<close> are deleted when it returns;
  every call assigns them before it reads them, so they are left as they are here.
\<close>

definition predict ::
  "('tbl, 'x) env \<Rightarrow> (GroupedArray \<Rightarrow> series_transformer) \<Rightarrow> nat list \<Rightarrow> ts \<Rightarrow> (string \<times> 'tbl model) list \<Rightarrow> int \<Rightarrow>
   ('tbl \<Rightarrow> error + 'tbl) option \<Rightarrow> (uid list \<Rightarrow> fval list \<Rightarrow> error + fval list) option \<Rightarrow> 'x exog option \<Rightarrow>
   uid list option \<Rightarrow> error + preds \<times> ts" where
  "predict en tsf order s models horizon before_cb after_cb X_df ids =
     (case select_ids s ids of
        Inl e \<Rightarrow> Inl e
      | Inr (us, idxs, lds) \<Rightarrow>
          (let s1 = s\<lparr>priv_uids := us, priv_idxs := idxs\<rparr>
           in case (case X_df of
                      None \<Rightarrow> Inr None
                    | Some X \<Rightarrow> (case validate_exog s1 us lds horizon X of
                                   Inl e \<Rightarrow> Inl e
                                 | Inr rows \<Rightarrow> Inr (Some rows))) of
                Inl e \<Rightarrow> Inl e
              | Inr X' \<Rightarrow>
                  (case (case max_horizon s1 of
                           None \<Rightarrow> predict_recursive en tsf order s1 models horizon before_cb after_cb X'
                         | Some mh \<Rightarrow> predict_multi en tsf order s1 models horizon before_cb X') of
                     Inl e \<Rightarrow> Inl e
                   | Inr (p, s2) \<Rightarrow>
                       (case (case target_transforms s2 of
                                None \<Rightarrow> Inr p
                              | Some tts \<Rightarrow> inverse_target_transforms (rev tts) (priv_idxs s2) p) of
                          Inl e \<Rightarrow> Inl e
                        | Inr p' \<Rightarrow> Inr (p', s2)))))"



section \<open>Concrete inputs\<close>

text \<open>A series with the lags 1 and 2.\<close>

definition ex_lags :: "(string \<times> tspec) list" where
  "ex_lags = init_transforms [1, 2] []"

text \<open>
  Two registries with the names \<open>f_lag1\<close> and \<open>g_lag1\<close>: in the first the function
  \<open>f\<close> raises, in the second the function \<open>g\<close> raises the same exception.
\<close>

definition f_raises :: tfm where
  "f_raises = \<lparr>fn_name = ''f'', fn_params = [(''x'', None)], fn_call = (\<lambda>x args. Inl (Raised ''boom''))\<rparr>"
definition f_returns :: tfm where
  "f_returns = \<lparr>fn_name = ''f'', fn_params = [(''x'', None)], fn_call = (\<lambda>x args. Inr x)\<rparr>"
definition g_raises :: tfm where
  "g_raises = \<lparr>fn_name = ''g'', fn_params = [(''x'', None)], fn_call = (\<lambda>x args. Inl (Raised ''boom''))\<rparr>"
definition g_returns :: tfm where
  "g_returns = \<lparr>fn_name = ''g'', fn_params = [(''x'', None)], fn_call = (\<lambda>x args. Inr x)\<rparr>"

text \<open>A transform function \<open>f\<close> of one parameter.\<close>

definition ex_f :: tfm where
  "ex_f = \<lparr>fn_name = ''f'', fn_params = [(''x'', None)], fn_call = (\<lambda>x args. Inr x)\<rparr>"

text \<open>
  The concrete scenario: a series constructed with the frequency 5 and the lag 1, and a
  sorted frame with the columns \<open>id\<close>, \<open>ds\<close> and \<open>y\<close>, integer times and the two
  series \<open>[1, 2, 3, 4]\<close> (id 0) and \<open>[10, 20, 30]\<close> (id 1).
\<close>

definition ex_init :: ts where
  "ex_init = \<lparr>freq = IntFreq 5, lags = [1], lag_transforms = [], date_features = [],
              num_threads = 1, target_transforms = None, transforms = init_transforms [1] [],
              warns = [], id_col = [], time_col = [], target_col = [], keep_last_n = None,
              static_features = None, uids = [], last_dates = [], restore_idxs = [],
              ga = \<lparr>data = [], indptr = []\<rparr>, priv_ga = \<lparr>data = [], indptr = []\<rparr>,
              fitted_static_features = [], fitted_features_order = [], max_horizon = None,
              dropna = True, y_pred = [], curr_dates = None, test_dates = [],
              priv_uids = [], priv_idxs = None, priv_h = 0\<rparr>"

definition ex_frame :: frame where
  "ex_frame = \<lparr>columns = [''id'', ''ds'', ''y''], n_rows = 7, time_dtype = Integer,
               target_values = [Val 1, Val 2, Val 3, Val 4, Val 10, Val 20, Val 30]\<rparr>"

definition ex_process :: "frame \<Rightarrow> processed" where
  "ex_process df = \<lparr>p_uids = [0, 1], p_times = [4, 3], p_indptr = [0, 4, 7], p_sort_idxs = None\<rparr>"

text \<open>The series after the fit of the frame.\<close>

definition ex_fitted :: ts where
  "ex_fitted = ex_init\<lparr>freq := IntFreq 1, warns := [FreqWarning], id_col := ''id'',
                 time_col := ''ds'', target_col := ''y'', uids := [0, 1], last_dates := [4, 3],
                 restore_idxs := [0, 1, 2, 3, 4, 5, 6], ga := ga_example, priv_ga := ga_example,
                 fitted_static_features := [''id''], fitted_features_order := [''lag1'']\<rparr>"

text \<open>
  An environment whose table of features is the dict of the features, a model that
  predicts 0 for every row, and three frames of exogenous features for the horizon 1:
  one without a feature column, one with the rows of both ids (and a row outside of the
  window), one with the row of one id only.
\<close>

type_synonym ex_table = "(string \<times> fval list) list"

definition ex_env :: "(ex_table, real) env" where
  "ex_env = \<lparr>assemble = (\<lambda>s feats X. Inr feats), null_columns = (\<lambda>t. []),
             select_columns = (\<lambda>t cols. Inr t),
             table_rows = (\<lambda>t. case t of [] \<Rightarrow> 0 | (k, v) # kvs \<Rightarrow> length v)\<rparr>"

definition ex_zero :: "ex_table model" where
  "ex_zero = Single (\<lambda>t. Inr (replicate (case t of [] \<Rightarrow> 0 | (k, v) # kvs \<Rightarrow> length v) (Val 0)))"

definition ex_X_no_features :: "real exog" where
  "ex_X_no_features = \<lparr>x_columns = [''id'', ''ds''], x_rows = [(0, 5, 0), (1, 4, 0)]\<rparr>"

definition ex_X :: "real exog" where
  "ex_X = \<lparr>x_columns = [''id'', ''ds'', ''price''], x_rows = [(1, 4, 7), (0, 5, 3), (0, 9, 8)]\<rparr>"

definition ex_X_short :: "real exog" where
  "ex_X_short = \<lparr>x_columns = [''id'', ''ds'', ''price''], x_rows = [(0, 5, 3)]\<rparr>"





section \<open>Dicts and decimal digits\<close>

lemma map_of_dict_set: "map_of (dict_set k v al) = (map_of al)(k \<mapsto> v)"
  by (induction al) auto

lemma map_fst_dict_set:
  "map fst (dict_set k v al) = (if k \<in> fst ` set al then map fst al else map fst al @ [k])"
  by (induction al) auto

lemma distinct_dict_set: "distinct (map fst al) \<Longrightarrow> distinct (map fst (dict_set k v al))"
  by (induction al) (auto simp: map_fst_dict_set split: if_splits)

lemma str_nat_digit: "n < 10 \<Longrightarrow> str_nat n = [digit_char n]"
  by (simp add: str_nat.simps)

section \<open>Properties of \<^verbatim>\<open>_expand_target\<close>\<close>

lemma expand_row_eq:
  assumes "j < length serie"
  shows "expand_row serie j h = take h (drop j serie) @ replicate (h - (length serie - j)) NaN"
proof -
  let ?u = "min (length serie - j) h"
  have a: "map (\<lambda>k. serie ! (j + k)) [0..<?u] = take h (drop j serie)"
    by (rule nth_equalityI) (use assms in auto)
  have b: "map (\<lambda>k. NaN) [?u..<h] = replicate (h - (length serie - j)) NaN"
    by (simp add: map_replicate_const min_def)
  show ?thesis
    unfolding expand_row_def Let_def a b ..
qed

lemma nth_concat_take:
  "i < length xss \<Longrightarrow> j < length (xss ! i) \<Longrightarrow>
   concat xss ! (length (concat (take i xss)) + j) = xss ! i ! j"
proof (induction xss arbitrary: i)
  case Nil
  then show ?case by simp
next
  case (Cons xs xss)
  show ?case
  proof (cases i)
    case 0
    with Cons.prems show ?thesis by (simp add: nth_append)
  next
    case (Suc i')
    with Cons.prems have "concat xss ! (length (concat (take i' xss)) + j) = xss ! i' ! j"
      by (intro Cons.IH) auto
    with Suc show ?thesis by (simp add: nth_append add.assoc)
  qed
qed

lemma wf_ga_last:
  assumes "wf_ga g"
  shows "indptr g ! n_groups g = length (data g)"
  using assms unfolding wf_ga_def n_groups_def by (metis last_conv_nth)

lemma wf_ga_index:
  assumes "wf_ga g" and "i \<le> n_groups g"
  shows "i < length (indptr g)"
  using assms unfolding wf_ga_def n_groups_def by (cases "indptr g") auto

text \<open>The groups of a well-formed grouped array, one after the other, are its buffer.\<close>

lemma concat_groups_take:
  assumes "sorted ptr" and "ptr \<noteq> []" and "hd ptr = 0" and "i < length ptr"
  shows "concat (map (\<lambda>k. slice dat (ptr ! k) (ptr ! (k + 1))) [0..<i]) = take (ptr ! i) dat"
  using assms(4)
proof (induction i)
  case 0
  with assms show ?case by (simp add: hd_conv_nth)
next
  case (Suc i)
  have le: "ptr ! i \<le> ptr ! Suc i"
    using assms(1) Suc.prems by (simp add: sorted_iff_nth_mono)
  have "take (ptr ! Suc i) dat = take (ptr ! i + (ptr ! Suc i - ptr ! i)) dat"
    using le by simp
  also have "\<dots> = take (ptr ! i) dat @ slice dat (ptr ! i) (ptr ! Suc i)"
    by (simp only: take_add slice_def)
  finally show ?case
    using Suc by simp
qed

lemma concat_groups:
  assumes "wf_ga g"
  shows "concat (map (group g) [0..<n_groups g]) = data g"
proof -
  from assms have p: "sorted (indptr g)" "indptr g \<noteq> []" "hd (indptr g) = 0"
    by (simp_all add: wf_ga_def)
  have "concat (map (\<lambda>k. slice (data g) (indptr g ! k) (indptr g ! (k + 1))) [0..<n_groups g])
        = take (indptr g ! n_groups g) (data g)"
    using p wf_ga_index[OF assms, of "n_groups g"] by (intro concat_groups_take) simp_all
  then show ?thesis
    by (simp add: group_def[abs_def] wf_ga_last[OF assms])
qed

lemma indptr_le_length:
  assumes "wf_ga g" and "i < length (indptr g)"
  shows "indptr g ! i \<le> length (data g)"
proof -
  from assms have "indptr g ! i \<le> indptr g ! n_groups g"
    unfolding n_groups_def by (intro sorted_nth_mono) (auto simp: wf_ga_def)
  then show ?thesis
    by (simp add: wf_ga_last[OF assms(1)])
qed

lemma length_group:
  assumes "wf_ga g" and "i < n_groups g"
  shows "length (group g i) = indptr g ! (i + 1) - indptr g ! i"
proof -
  have "indptr g ! (i + 1) \<le> length (data g)"
    using assms by (intro indptr_le_length) (auto simp: n_groups_def)
  then show ?thesis
    by (simp add: group_def slice_def)
qed

lemma indptr_mono:
  assumes "wf_ga g" and "i < n_groups g"
  shows "indptr g ! i \<le> indptr g ! (i + 1)"
  using assms by (intro sorted_nth_mono) (auto simp: wf_ga_def n_groups_def)

lemma expand_target_rows_of_groups:
  "expand_target (data g) (indptr g) h =
   concat (map (\<lambda>i. map (\<lambda>j. expand_row (group g i) j h) [0..<length (group g i)])
               [0..<n_groups g])"
  by (simp add: expand_target_def group_def n_groups_def Let_def)

lemma length_rows_before:
  assumes "wf_ga g" and "i \<le> n_groups g"
  shows "length (concat (map (\<lambda>i. map (\<lambda>j. expand_row (group g i) j h) [0..<length (group g i)])
                             [0..<i])) = indptr g ! i"
proof -
  have "length (concat (map (\<lambda>i. map (\<lambda>j. expand_row (group g i) j h) [0..<length (group g i)])
                            [0..<i]))
        = length (concat (map (group g) [0..<i]))"
    by (simp add: length_concat comp_def)
  also have "concat (map (group g) [0..<i]) = take (indptr g ! i) (data g)"
    unfolding group_def[abs_def]
    using assms wf_ga_index[OF assms] by (intro concat_groups_take) (auto simp: wf_ga_def)
  also have "length \<dots> = indptr g ! i"
    using indptr_le_length[OF assms(1) wf_ga_index[OF assms]] by simp
  finally show ?thesis .
qed

lemma length_expand_target:
  assumes "wf_ga g"
  shows "length (expand_target (data g) (indptr g) h) = length (data g)"
proof -
  have "length (expand_target (data g) (indptr g) h) = indptr g ! n_groups g"
    unfolding expand_target_rows_of_groups using assms by (intro length_rows_before) simp_all
  also have "\<dots> = length (data g)"
    by (rule wf_ga_last[OF assms])
  finally show ?thesis .
qed

lemma expand_target_nth:
  assumes "wf_ga g" and "i < n_groups g" and "j < length (group g i)"
  shows "expand_target (data g) (indptr g) h ! (indptr g ! i + j) = expand_row (group g i) j h"
proof -
  let ?R = "\<lambda>i. map (\<lambda>j. expand_row (group g i) j h) [0..<length (group g i)]"
  let ?xss = "map ?R [0..<n_groups g]"
  have i: "i < length ?xss" and j: "j < length (?xss ! i)"
    using assms by simp_all
  have "take i ?xss = map ?R [0..<i]"
    using assms(2) by (simp add: take_map)
  then have "length (concat (take i ?xss)) = indptr g ! i"
    using length_rows_before[OF assms(1), of i h] assms(2) by simp
  with nth_concat_take[OF i j] have "concat ?xss ! (indptr g ! i + j) = ?xss ! i ! j"
    by simp
  also have "\<dots> = expand_row (group g i) j h"
    using assms by simp
  finally show ?thesis
    by (simp only: expand_target_rows_of_groups)
qed

lemma expand_target_one:
  assumes "wf_ga g"
  shows "expand_target (data g) (indptr g) 1 = map (\<lambda>v. [v]) (data g)"
proof -
  have row: "map (\<lambda>j. expand_row s j 1) [0..<length s] = map (\<lambda>v. [v]) s" for s
    by (rule nth_equalityI) (simp_all add: expand_row_eq take_Suc hd_drop_conv_nth)
  have "expand_target (data g) (indptr g) 1 = concat (map (\<lambda>i. map (\<lambda>v. [v]) (group g i)) [0..<n_groups g])"
    by (simp only: expand_target_rows_of_groups row)
  also have "\<dots> = map (\<lambda>v. [v]) (concat (map (group g) [0..<n_groups g]))"
    by (simp add: map_concat comp_def)
  finally show ?thesis
    by (simp add: concat_groups[OF assms])
qed

lemma length_expand_row: "length (expand_row serie j h) = h"
  by (simp add: expand_row_def Let_def)

lemma expand_target_row_lengths:
  "\<forall>row \<in> set (expand_target dat ptr h). length row = h"
  by (auto simp: expand_target_def Let_def length_expand_row)

lemma take_drop_upt:
  "take h (drop j xs) = map (\<lambda>k. xs ! k) [j..<min (j + h) (length xs)]"
proof (rule nth_equalityI)
  show "length (take h (drop j xs)) = length (map (\<lambda>k. xs ! k) [j..<min (j + h) (length xs)])"
    by (auto simp: min_def)
next
  fix i
  assume "i < length (take h (drop j xs))"
  then have i: "i < h" "j + i < length xs"
    by auto
  then have "i < length [j..<min (j + h) (length xs)]"
    by auto
  then have "map (\<lambda>k. xs ! k) [j..<min (j + h) (length xs)] ! i = xs ! ([j..<min (j + h) (length xs)] ! i)"
    by (rule nth_map)
  also have "[j..<min (j + h) (length xs)] ! i = j + i"
    using i by (intro nth_upt) auto
  finally have "map (\<lambda>k. xs ! k) [j..<min (j + h) (length xs)] ! i = xs ! (j + i)" .
  with i show "take h (drop j xs) ! i = map (\<lambda>k. xs ! k) [j..<min (j + h) (length xs)] ! i"
    by simp
qed

text \<open>
  Claim C6. On a well-formed grouped array and for every horizon \<open>h\<close>, \<^verbatim>\<open>_expand_target\<close>
  returns one row of width \<open>h\<close> per observation; the row of the observation at offset
  \<open>j\<close> of group \<open>i\<close> (row \<open>indptr ! i + j\<close>) holds the group's values at offsets
  \<open>j, ..., min (j + h) n - 1\<close>, where \<open>n\<close> is the length of the group, then NaN up to
  width \<open>h\<close>; for \<open>h = 1\<close> the single column is the buffer itself.
\<close>

theorem expand_target_spec:
  assumes "wf_ga g" and "i < n_groups g" and "j < length (group g i)"
  shows "length (expand_target (data g) (indptr g) h) = length (data g)
       \<and> (\<forall>row \<in> set (expand_target (data g) (indptr g) h). length row = h)
       \<and> expand_target (data g) (indptr g) h ! (indptr g ! i + j)
           = map (\<lambda>k. group g i ! k) [j..<min (j + h) (length (group g i))]
             @ replicate (j + h - min (j + h) (length (group g i))) NaN
       \<and> expand_target (data g) (indptr g) 1 = map (\<lambda>v. [v]) (data g)"
proof -
  have "expand_row (group g i) j h
        = map (\<lambda>k. group g i ! k) [j..<min (j + h) (length (group g i))]
          @ replicate (j + h - min (j + h) (length (group g i))) NaN"
  proof -
    have "h - (length (group g i) - j) = j + h - min (j + h) (length (group g i))"
      using assms(3) by (auto simp: min_def)
    then show ?thesis
      using assms(3) by (simp only: expand_row_eq take_drop_upt)
  qed
  then have "expand_target (data g) (indptr g) h ! (indptr g ! i + j)
             = map (\<lambda>k. group g i ! k) [j..<min (j + h) (length (group g i))]
               @ replicate (j + h - min (j + h) (length (group g i))) NaN"
    by (simp only: expand_target_nth[OF assms])
  with length_expand_target[OF assms(1)] expand_target_row_lengths expand_target_one[OF assms(1)]
  show ?thesis
    by blast
qed

theorem expand_target_spec_witness:
  "wf_ga ga_example \<and> 1 < n_groups ga_example \<and> 1 < length (group ga_example 1)
   \<and> length (expand_target (data ga_example) (indptr ga_example) 3) = 7
   \<and> expand_target (data ga_example) (indptr ga_example) 3 ! 5 = [Val 20, Val 30, NaN]
   \<and> expand_target (data ga_example) (indptr ga_example) 1
       = [[Val 1], [Val 2], [Val 3], [Val 4], [Val 10], [Val 20], [Val 30]]"
proof -
  have d: "data ga_example = [Val 1, Val 2, Val 3, Val 4, Val 10, Val 20, Val 30]"
    and ip: "indptr ga_example = [0, 4, 7]"
    by (simp_all add: ga_example_def)
  have w: "wf_ga ga_example"
    by (simp add: wf_ga_def d ip)
  have n: "1 < n_groups ga_example"
    by (simp add: n_groups_def ip)
  have g: "group ga_example (Suc 0) = [Val 10, Val 20, Val 30]"
    by (simp add: group_def slice_def d ip)
  have l: "1 < length (group ga_example 1)"
    by (simp add: g)
  have u: "[Suc 0..<3] = [Suc 0, 2]"
    by (simp add: upt_rec)
  from expand_target_spec[OF w n l, of 3] w n l show ?thesis
    by (simp add: g u d ip)
qed

section \<open>Names in the registry and names of models\<close>

lemma set_all_simps:
  "set_all [] reg = reg" "set_all ((k, v) # regs) reg = set_all regs (dict_set k v reg)"
  "set_all (xs @ ys) reg = set_all ys (set_all xs reg)"
  by (simp_all add: set_all_def)

lemma register_lags_fold:
  "register_lags lgs reg = set_all (map (\<lambda>lag. (''lag'' @ str_int lag, (lag, identity, []))) lgs) reg"
  unfolding register_lags_def by (induction lgs arbitrary: reg) (simp_all add: set_all_simps)

lemma register_inner_fold:
  "fold (\<lambda>(f, args) r'. dict_set (build_transform_name lag f args) (lag, f, args) r') tfms reg
   = set_all (map (\<lambda>(f, args). (build_transform_name lag f args, (lag, f, args))) tfms) reg"
  by (induction tfms arbitrary: reg) (auto simp: set_all_simps)

lemma register_lag_transforms_fold:
  "register_lag_transforms lts reg
   = set_all (concat (map (\<lambda>(lag, tfms). map (\<lambda>(f, args). (build_transform_name lag f args, (lag, f, args))) tfms) lts)) reg"
  unfolding register_lag_transforms_def
  by (induction lts arbitrary: reg) (auto simp: set_all_simps register_inner_fold)

lemma init_transforms_fold:
  "init_transforms lgs lts = set_all (registrations lgs lts) []"
  by (simp add: init_transforms_def registrations_def register_lags_fold register_lag_transforms_fold
      set_all_simps)

lemma map_of_set_all: "map_of (set_all regs reg) = map_of (rev regs @ reg)"
proof (induction regs arbitrary: reg)
  case Nil
  then show ?case by (simp add: set_all_simps)
next
  case (Cons p regs)
  obtain k v where p: "p = (k, v)" by (cases p)
  have "map_of (rev regs @ dict_set k v reg) = map_of (rev regs @ [(k, v)] @ reg)"
    by (simp add: map_of_dict_set map_add_def fun_eq_iff split: option.splits)
  with Cons show ?case
    by (simp add: p set_all_simps)
qed

lemma remdups_snoc: "remdups (ys @ [x]) = filter (\<lambda>y. y \<noteq> x) (remdups ys) @ [x]"
  by (induction ys) auto

lemma first_occurrences_Cons:
  "rev (remdups (ys @ [x])) = x # filter (\<lambda>y. y \<noteq> x) (rev (remdups ys))"
  by (simp add: remdups_snoc rev_filter)

lemma keys_set_all:
  "map fst (set_all regs reg)
   = map fst reg @ filter (\<lambda>k. k \<notin> fst ` set reg) (rev (remdups (rev (map fst regs))))"
proof (induction regs arbitrary: reg)
  case Nil
  then show ?case by (simp add: set_all_simps)
next
  case (Cons p regs)
  obtain k v where p: "p = (k, v)" by (cases p)
  show ?case
  proof (cases "k \<in> fst ` set reg")
    case True
    then have m: "map fst (dict_set k v reg) = map fst reg"
      by (simp add: map_fst_dict_set)
    then have s: "fst ` set (dict_set k v reg) = fst ` set reg"
      by (metis set_map)
    have "filter (\<lambda>k'. k' \<notin> fst ` set reg) (filter (\<lambda>y. y \<noteq> k) (rev (remdups (rev (map fst regs)))))
          = filter (\<lambda>k'. k' \<notin> fst ` set reg) (rev (remdups (rev (map fst regs))))"
      using True by (auto intro: filter_cong)
    with True show ?thesis
      unfolding p set_all_simps Cons.IH m s by (simp add: first_occurrences_Cons)
  next
    case False
    then have m: "map fst (dict_set k v reg) = map fst reg @ [k]"
      by (simp add: map_fst_dict_set)
    then have s: "fst ` set (dict_set k v reg) = insert k (fst ` set reg)"
      by (metis Un_insert_right append_Nil2 list.simps(15) set_append set_map)
    have "filter (\<lambda>k'. k' \<notin> fst ` set reg) (filter (\<lambda>y. y \<noteq> k) (rev (remdups (rev (map fst regs)))))
          = filter (\<lambda>k'. k' \<notin> insert k (fst ` set reg)) (rev (remdups (rev (map fst regs))))"
      by (auto intro: filter_cong)
    with False show ?thesis
      unfolding p set_all_simps Cons.IH m s by (simp add: first_occurrences_Cons)
  qed
qed

lemma registry_keys:
  "map fst (init_transforms lgs lts) = rev (remdups (rev (map fst (registrations lgs lts))))"
  by (simp add: init_transforms_fold keys_set_all)

lemma registry_map: "map_of (init_transforms lgs lts) = map_of (rev (registrations lgs lts))"
  by (simp add: init_transforms_fold map_of_set_all)

lemma occurrence_name_prefix:
  "q < length pre \<Longrightarrow> occurrence_name (pre @ [x]) q = occurrence_name pre q"
  by (simp add: occurrence_name_def nth_append)

lemma occurrence_name_last:
  "occurrence_name (pre @ [x]) (length pre)
   = (if count_list (pre @ [x]) x > 1 then x @ str_nat (count_list (pre @ [x]) x) else x)"
  by (simp add: occurrence_name_def Let_def)

lemma name_models_loop_eq:
  assumes "length pre \<le> length names" and "\<forall>y \<in> set pre. ctr y = count_list pre y"
  shows "name_models_loop ctr names
           (zip [length names - length pre + 1..<length names + 1] (rev pre))
         = map (occurrence_name pre) [0..<length pre] @ drop (length pre) names"
  using assms
proof (induction pre arbitrary: ctr names rule: rev_induct)
  case Nil
  then show ?case by simp
next
  case (snoc x pre)
  let ?n = "length names" and ?count = "ctr x"
  have le: "Suc (length pre) \<le> ?n"
    using snoc.prems(1) by simp
  have cx: "?count = Suc (count_list pre x)"
    using snoc.prems(2) by simp
  have "[?n - length (pre @ [x]) + 1..<?n + 1]
        = (?n - length (pre @ [x]) + 1) # [Suc (?n - length (pre @ [x]) + 1)..<?n + 1]"
    using le by (intro upt_conv_Cons) simp
  also have "Suc (?n - length (pre @ [x]) + 1) = ?n - length pre + 1"
    using le by simp
  finally have z: "zip [?n - length (pre @ [x]) + 1..<?n + 1] (rev (pre @ [x]))
        = (?n - length (pre @ [x]) + 1, x) # zip [?n - length pre + 1..<?n + 1] (rev pre)"
    by simp
  have pos: "?n - Suc (?n - Suc (length pre)) = length pre"
    using le by arith
  define nm where "nm = (if ?count > 1 then x @ str_nat ?count else x)"
  define ctr' where "ctr' = (if ?count > 1 then ctr(x := ?count - 1) else ctr)"
  let ?names' = "names[length pre := nm]"
  have step: "name_models_loop ctr names (zip [?n - length (pre @ [x]) + 1..<?n + 1] (rev (pre @ [x])))
        = name_models_loop ctr' ?names' (zip [length ?names' - length pre + 1..<length ?names' + 1] (rev pre))"
    unfolding z by (simp add: pos nm_def ctr'_def Let_def del: upt_Suc)
  have inv: "\<forall>y \<in> set pre. ctr' y = count_list pre y"
  proof
    fix y
    assume y: "y \<in> set pre"
    have cy: "ctr y = count_list (pre @ [x]) y"
      using snoc.prems(2) y by simp
    show "ctr' y = count_list pre y"
    proof (cases "?count > 1")
      case True
      with cy cx show ?thesis
        by (simp add: ctr'_def)
    next
      case False
      with cx have "count_list pre x = 0"
        by simp
      then have "x \<notin> set pre"
        by (simp add: count_list_0_iff)
      with y have "y \<noteq> x"
        by auto
      with False cy show ?thesis
        by (simp add: ctr'_def)
    qed
  qed
  have IH': "name_models_loop ctr' ?names' (zip [length ?names' - length pre + 1..<length ?names' + 1] (rev pre))
        = map (occurrence_name pre) [0..<length pre] @ drop (length pre) ?names'"
    using le inv by (intro snoc.IH) simp_all
  have d: "drop (length pre) ?names' = nm # drop (Suc (length pre)) names"
    using le by (simp add: drop_update_cancel Cons_nth_drop_Suc[symmetric] upd_conv_take_nth_drop)
  have m: "map (occurrence_name pre) [0..<length pre] = map (occurrence_name (pre @ [x])) [0..<length pre]"
    by (simp add: occurrence_name_prefix)
  have nm_eq: "nm = occurrence_name (pre @ [x]) (length pre)"
    using cx snoc.prems(2) by (simp add: occurrence_name_last nm_def)
  have "map (occurrence_name (pre @ [x])) [0..<length (pre @ [x])] @ drop (length (pre @ [x])) names
        = map (occurrence_name (pre @ [x])) [0..<length pre] @ nm # drop (Suc (length pre)) names"
    by (simp add: nm_eq)
  then show ?case
    unfolding step IH' d m by simp
qed

lemma le_fold_max: "(a::nat) \<le> fold max xs a"
  by (induction xs arbitrary: a) (auto intro: order_trans[OF max.cobounded2])

lemma mem_le_fold_max: "y \<in> set xs \<Longrightarrow> (y::nat) \<le> fold max xs a"
proof (induction xs arbitrary: a)
  case Nil
  then show ?case by simp
next
  case (Cons x xs)
  then show ?case
    using le_fold_max[of "max x a" xs] by auto
qed

lemma count_list_take_le: "count_list (take k xs) x \<le> count_list xs x"
proof -
  have "count_list (take k xs @ drop k xs) x = count_list (take k xs) x + count_list (drop k xs) x"
    by (rule count_list_append)
  then show ?thesis by simp
qed

lemma name_models_eq:
  "name_models names = map (occurrence_name names) [0..<length names]"
proof (cases "names = []")
  case True
  then show ?thesis by (simp add: name_models_def)
next
  case ne: False
  show ?thesis
  proof (cases "fold max (map (count_list names) names) 0 < 2")
    case True
    have "occurrence_name names i = names ! i" if "i < length names" for i
    proof -
      have "count_list names (names ! i) \<le> fold max (map (count_list names) names) 0"
        using that by (intro mem_le_fold_max) simp
      with True count_list_take_le[of "Suc i" names "names ! i"]
      have "count_list (take (Suc i) names) (names ! i) < 2"
        by simp
      then show ?thesis
        by (simp add: occurrence_name_def Let_def)
    qed
    then have "map (occurrence_name names) [0..<length names] = names"
      by (intro nth_equalityI) simp_all
    with True ne show ?thesis
      by (simp add: name_models_def)
  next
    case False
    with ne name_models_loop_eq[of names names "count_list names"] show ?thesis
      by (simp add: name_models_def Let_def del: upt_Suc)
  qed
qed

text \<open>
  Claim C1 does not hold as stated. The registry is a dict keyed by the computed name:
  registering \<open>(lag = 1, f)\<close> twice leaves the one name \<open>f_lag1\<close>, and no name gets a
  suffix. \<^verbatim>\<open>_name_models\<close>, which the constructor does not call, appends the count
  without a separator (\<open>f_lag12\<close>, not \<open>f_lag1_2\<close>), and its result can have a collision.
\<close>

theorem registering_twice_one_name:
  "map fst (init_transforms [] [(1, [(ex_f, []), (ex_f, [])])]) = [''f_lag1'']
   \<and> name_models [''f_lag1'', ''f_lag1''] = [''f_lag1'', ''f_lag12'']
   \<and> name_models [''a'', ''a'', ''a2''] = [''a'', ''a2'', ''a2'']"
  by (simp add: init_transforms_def register_lags_def register_lag_transforms_def
      build_transform_name_def ex_f_def str_int_def str_nat_digit digit_char_def
      name_models_eq occurrence_name_def)

text \<open>
  Claim C1, amended. The names of the registry are the computed names, each once, in the
  order of their first registration (\<open>remdups\<close> keeps the last occurrence of an element,
  so \<open>rev (remdups (rev xs))\<close> keeps the first), and a name stands for the last
  registration that computed it. \<^verbatim>\<open>_name_models\<close> gives the first occurrence of a name
  the bare name and the \<open>k\<close>-th occurrence, for \<open>k\<close> from 2 on, the name followed by
  \<open>k\<close>.
\<close>

theorem registry_names:
  "map fst (init_transforms lgs lts) = rev (remdups (rev (map fst (registrations lgs lts))))
   \<and> distinct (map fst (init_transforms lgs lts))
   \<and> map_of (init_transforms lgs lts) = map_of (rev (registrations lgs lts))
   \<and> name_models names = map (occurrence_name names) [0..<length names]"
  by (simp add: registry_keys registry_map name_models_eq)

theorem registry_names_witness:
  "map fst (init_transforms [1] [(1, [(ex_f, []), (ex_f, [])])]) = [''lag1'', ''f_lag1'']
   \<and> map fst (registrations [1] [(1, [(ex_f, []), (ex_f, [])])]) = [''lag1'', ''f_lag1'', ''f_lag1'']
   \<and> name_models [''a'', ''b'', ''a'', ''a'', ''b''] = [''a'', ''b'', ''a2'', ''a3'', ''b2'']"
proof -
  have r: "map fst (registrations [1] [(1, [(ex_f, []), (ex_f, [])])]) = [''lag1'', ''f_lag1'', ''f_lag1'']"
    by (simp add: registrations_def build_transform_name_def ex_f_def str_int_def str_nat_digit
        digit_char_def)
  from registry_names[of "[1]" "[(1, [(ex_f, []), (ex_f, [])])]" "[''a'', ''b'', ''a'', ''a'', ''b'']"]
  show ?thesis
    by (simp add: r occurrence_name_def str_nat_digit digit_char_def)
qed

section \<open>Sequential and multithreaded application\<close>

text \<open>The outcome of taking the futures in a given order.\<close>

lemma collect_completed_fail:
  assumes "find (\<lambda>i. isl (fst (futs ! i))) order = Some i"
  shows "collect_completed futs results order = Inl (projl (fst (futs ! i)))"
  using assms
proof (induction order arbitrary: results)
  case Nil
  then show ?case by simp
next
  case (Cons j order)
  then show ?case
    by (cases "futs ! j"; cases "fst (futs ! j)") (auto split: if_splits)
qed

lemma collect_completed_ok:
  assumes "find (\<lambda>i. isl (fst (futs ! i))) order = None"
  shows "collect_completed futs results order
         = Inr (fold (\<lambda>i. dict_set (snd (futs ! i)) (projr (fst (futs ! i)))) order results)"
  using assms
proof (induction order arbitrary: results)
  case Nil
  then show ?case by simp
next
  case (Cons j order)
  then show ?case
    by (cases "futs ! j"; cases "fst (futs ! j)") (auto split: if_splits)
qed

lemma apply_transforms_loop_futures:
  "apply_transforms_loop tsf u off results rest
   = collect_completed (submit_all tsf u off (pre @ rest)) results
       [length pre..<length pre + length rest]"
proof (induction rest arbitrary: pre results)
  case Nil
  then show ?case by simp
next
  case (Cons t rest)
  obtain name lag f args where t: "t = (name, (lag, f, args))"
    by (cases t) auto
  have "[length pre..<length pre + Suc (length rest)]
        = length pre # [Suc (length pre)..<length pre + Suc (length rest)]"
    by (rule upt_conv_Cons) simp
  then have u: "[length pre..<length pre + length (t # rest)]
           = length pre # [length (pre @ [t])..<length (pre @ [t]) + length rest]"
    by simp
  let ?F = "submit_all tsf u off (pre @ (name, lag, f, args) # rest)"
  have n: "?F ! length pre = (tsf u (lag - off) (fn_call f) args, name)"
    by (simp add: submit_all_def nth_append)
  have IH: "apply_transforms_loop tsf u off results' rest
            = collect_completed ?F results' [length (pre @ [t])..<length (pre @ [t]) + length rest]"
    for results'
    using Cons.IH[of results' "pre @ [t]"] by (simp add: t del: upt_Suc)
  show ?case
    unfolding t
    by (cases "tsf u (lag - off) (fn_call f) args")
       (simp_all only: apply_transforms_loop.simps collect_completed.simps n IH[unfolded t]
          u[unfolded t] sum.case prod.case)
qed

lemma apply_transforms_futures:
  "apply_transforms tsf tfms u
   = collect_completed (submit_all tsf u (if u then 1 else 0) tfms) [] [0..<length tfms]"
  using apply_transforms_loop_futures[of tsf u "if u then 1 else 0" "[]" tfms "[]"]
  by (simp add: apply_transforms_def Let_def)

lemma fold_upd_in:
  assumes "inj_on k (set order)" and "i \<in> set order"
  shows "fold (\<lambda>i m. m(k i \<mapsto> v i)) order m (k i) = Some (v i)"
  using assms
proof (induction order arbitrary: m rule: rev_induct)
  case Nil
  then show ?case by simp
next
  case (snoc j order)
  then show ?case
    by (cases "i = j") (auto simp: inj_on_def)
qed

lemma fold_upd_out:
  assumes "x \<notin> k ` set order"
  shows "fold (\<lambda>i m. m(k i \<mapsto> v i)) order m x = m x"
  using assms by (induction order arbitrary: m) auto

lemma map_of_fold_dict_set:
  "map_of (fold (\<lambda>i. dict_set (k i) (v i)) order results)
   = fold (\<lambda>i m. m(k i \<mapsto> v i)) order (map_of results)"
  by (induction order arbitrary: results) (simp_all add: map_of_dict_set)

lemma fold_upd_order:
  assumes "inj_on k (set order)" and "set order' = set order"
  shows "fold (\<lambda>i m. m(k i \<mapsto> v i)) order m = fold (\<lambda>i m. m(k i \<mapsto> v i)) order' m"
proof
  fix x
  show "fold (\<lambda>i m. m(k i \<mapsto> v i)) order m x = fold (\<lambda>i m. m(k i \<mapsto> v i)) order' m x"
  proof (cases "x \<in> k ` set order")
    case True
    then obtain i where "i \<in> set order" "x = k i"
      by auto
    with assms show ?thesis
      by (simp add: fold_upd_in)
  next
    case False
    with assms show ?thesis
      by (simp add: fold_upd_out)
  qed
qed

lemma find_None_set: "find P xs = None \<longleftrightarrow> (\<forall>x \<in> set xs. \<not> P x)"
  by (induction xs) auto

lemma submit_all_names:
  "i < length tfms \<Longrightarrow> snd (submit_all tsf u off tfms ! i) = map fst tfms ! i"
  by (simp add: submit_all_def split_beta)

lemma names_inj:
  assumes "distinct (map fst tfms)"
  shows "inj_on (\<lambda>i. snd (submit_all tsf u off tfms ! i)) {0..<length tfms}"
proof (rule inj_onI)
  fix i j
  assume "i \<in> {0..<length tfms}" and "j \<in> {0..<length tfms}"
    and "snd (submit_all tsf u off tfms ! i) = snd (submit_all tsf u off tfms ! j)"
  then have "i < length (map fst tfms)" "j < length (map fst tfms)"
    and "map fst tfms ! i = map fst tfms ! j"
    by (simp_all only: submit_all_names atLeastLessThan_iff length_map)
  with assms show "i = j"
    by (simp only: nth_eq_iff_index_eq)
qed

text \<open>
  Claim C2. With the same registry (a dict, so its names are distinct) and the same
  \<^verbatim>\<open>transform_series\<close>, the sequential and the multithreaded application agree for
  every completion order of the tasks: if the sequential one returns a dict, the
  multithreaded one returns a dict with the same names and the same buffer for every
  name, and if the sequential one raises, the multithreaded one raises too.
\<close>

theorem sequential_multithreaded_agree:
  assumes "distinct (map fst tfms)" and "completion_order (length tfms) order"
  shows "case apply_transforms tsf tfms u of
           Inr r \<Rightarrow> (\<exists>r'. apply_multithreaded_transforms tsf tfms u order = Inr r'
                           \<and> map_of r' = map_of r)
         | Inl e \<Rightarrow> (\<exists>e'. apply_multithreaded_transforms tsf tfms u order = Inl e')"
proof -
  let ?futs = "submit_all tsf u (if u then 1 else 0) tfms"
  let ?P = "\<lambda>i. isl (fst (?futs ! i))"
  let ?k = "\<lambda>i. snd (?futs ! i)" and ?v = "\<lambda>i. projr (fst (?futs ! i))"
  have seq: "apply_transforms tsf tfms u = collect_completed ?futs [] [0..<length tfms]"
    by (rule apply_transforms_futures)
  have par: "apply_multithreaded_transforms tsf tfms u order = collect_completed ?futs [] order"
    by (simp add: apply_multithreaded_transforms_def Let_def)
  have so: "set order = set [0..<length tfms]"
    using assms(2) by (simp add: completion_order_def)
  show ?thesis
  proof (cases "find ?P [0..<length tfms]")
    case None
    then have "find ?P order = None"
      using so by (simp add: find_None_set)
    then have p: "apply_multithreaded_transforms tsf tfms u order
                  = Inr (fold (\<lambda>i. dict_set (?k i) (?v i)) order [])"
      unfolding par by (rule collect_completed_ok)
    have s: "apply_transforms tsf tfms u
             = Inr (fold (\<lambda>i. dict_set (?k i) (?v i)) [0..<length tfms] [])"
      unfolding seq using None by (rule collect_completed_ok)
    have "inj_on ?k (set [0..<length tfms])"
      using names_inj[OF assms(1)] by simp
    then have "fold (\<lambda>i m. m(?k i \<mapsto> ?v i)) [0..<length tfms] Map.empty
               = fold (\<lambda>i m. m(?k i \<mapsto> ?v i)) order Map.empty"
      using so by (rule fold_upd_order)
    then show ?thesis
      by (simp add: p s map_of_fold_dict_set)
  next
    case (Some i)
    then have "\<exists>j \<in> set order. ?P j"
      using so by (auto simp: find_Some_iff)
    then obtain j where "find ?P order = Some j"
      by (cases "find ?P order") (auto simp: find_None_set)
    then have "apply_multithreaded_transforms tsf tfms u order = Inl (projl (fst (?futs ! j)))"
      unfolding par by (rule collect_completed_fail)
    moreover have "apply_transforms tsf tfms u = Inl (projl (fst (?futs ! i)))"
      unfolding seq using Some by (rule collect_completed_fail)
    ultimately show ?thesis
      by simp
  qed
qed

lemma ex_lags_eq: "ex_lags = [(''lag1'', (1, identity, [])), (''lag2'', (2, identity, []))]"
  by (simp add: ex_lags_def init_transforms_def register_lags_def register_lag_transforms_def
      str_int_def str_nat_digit digit_char_def)

lemma groups_ga_example: "groups ga_example = [[Val 1, Val 2, Val 3, Val 4], [Val 10, Val 20, Val 30]]"
  by (simp add: groups_def n_groups_def group_def slice_def ga_example_def upt_rec)

lemma ex1: "transform_series ga_example False 1 (fn_call identity) []
   = Inr [NaN, Val 1, Val 2, Val 3, NaN, Val 10, Val 20]"
  by (simp add: transform_series_def groups_ga_example transform_group_def shift_array_def identity_def)

lemma ex2: "transform_series ga_example False 2 (fn_call identity) []
   = Inr [NaN, NaN, Val 1, Val 2, NaN, NaN, Val 10]"
  by (simp add: transform_series_def groups_ga_example transform_group_def shift_array_def identity_def)

theorem sequential_multithreaded_agree_witness:
  "distinct (map fst ex_lags) \<and> completion_order (length ex_lags) [1, 0]
   \<and> apply_transforms (transform_series ga_example) ex_lags False
       = Inr [(''lag1'', [NaN, Val 1, Val 2, Val 3, NaN, Val 10, Val 20]),
              (''lag2'', [NaN, NaN, Val 1, Val 2, NaN, NaN, Val 10])]
   \<and> (\<exists>r'. apply_multithreaded_transforms (transform_series ga_example) ex_lags False [1, 0] = Inr r'
         \<and> map_of r' = map_of [(''lag1'', [NaN, Val 1, Val 2, Val 3, NaN, Val 10, Val 20]),
              (''lag2'', [NaN, NaN, Val 1, Val 2, NaN, NaN, Val 10])])"
proof -
  have d: "distinct (map fst ex_lags)"
    by (simp add: ex_lags_eq)
  have c: "completion_order (length ex_lags) [1, 0]"
    by (auto simp: completion_order_def ex_lags_eq)
  have s: "apply_transforms (transform_series ga_example) ex_lags False
       = Inr [(''lag1'', [NaN, Val 1, Val 2, Val 3, NaN, Val 10, Val 20]),
              (''lag2'', [NaN, NaN, Val 1, Val 2, NaN, NaN, Val 10])]"
    by (simp add: apply_transforms_def ex_lags_eq ex1 ex2)
  from sequential_multithreaded_agree[OF d c, of "transform_series ga_example" False] d c s
  show ?thesis
    by simp
qed

section \<open>A transform that raises\<close>

lemma names_fg:
  "map fst (init_transforms [] [(1, [(f_raises, []), (g_returns, [])])]) = [''f_lag1'', ''g_lag1'']"
  "map fst (init_transforms [] [(1, [(f_returns, []), (g_raises, [])])]) = [''f_lag1'', ''g_lag1'']"
  by (simp_all add: init_transforms_def register_lags_def register_lag_transforms_def
      build_transform_name_def f_raises_def g_returns_def f_returns_def g_raises_def
      str_int_def str_nat_digit digit_char_def)

text \<open>
  Claim C7 does not hold as stated: the exception of the failing transform is raised as it
  is, and nothing names the feature. A run where \<open>f_lag1\<close> fails and a run where
  \<open>g_lag1\<close> fails report the same error.
\<close>

theorem failure_names_no_feature:
  "map fst (init_transforms [] [(1, [(f_raises, []), (g_returns, [])])]) = [''f_lag1'', ''g_lag1'']
   \<and> map fst (init_transforms [] [(1, [(f_returns, []), (g_raises, [])])]) = [''f_lag1'', ''g_lag1'']
   \<and> apply_multithreaded_transforms (transform_series ga_example)
         (init_transforms [] [(1, [(f_raises, []), (g_returns, [])])]) False [0, 1]
       = Inl (Raised ''boom'')
   \<and> apply_multithreaded_transforms (transform_series ga_example)
         (init_transforms [] [(1, [(f_returns, []), (g_raises, [])])]) False [0, 1]
       = Inl (Raised ''boom'')"
  by (simp add: names_fg)
     (simp add: init_transforms_def register_lags_def register_lag_transforms_def
      build_transform_name_def f_raises_def g_returns_def f_returns_def g_raises_def
      str_int_def str_nat_digit digit_char_def apply_multithreaded_transforms_def submit_all_def
      transform_series_def groups_ga_example transform_group_def shift_array_def)

text \<open>
  Claim C7, amended. When some transform raises, the multithreaded application raises, for
  every completion order: the call fails with one error, the exception of the first failed
  task in completion order, unchanged, and no dict of results is returned.
\<close>

theorem multithreaded_failure:
  assumes "completion_order (length tfms) order"
    and "(name, lag, f, args) \<in> set tfms"
    and "tsf u (lag - (if u then 1 else 0)) (fn_call f) args = Inl e0"
  shows "\<exists>j e. find (\<lambda>k. isl (fst (submit_all tsf u (if u then 1 else 0) tfms ! k))) order = Some j
           \<and> j < length tfms
           \<and> (\<exists>name' lag' f' args'. tfms ! j = (name', lag', f', args')
                 \<and> tsf u (lag' - (if u then 1 else 0)) (fn_call f') args' = Inl e)
           \<and> apply_multithreaded_transforms tsf tfms u order = Inl e"
proof -
  let ?futs = "submit_all tsf u (if u then 1 else 0) tfms"
  let ?P = "\<lambda>k. isl (fst (?futs ! k))"
  have fut: "fst (?futs ! k) = (case tfms ! k of (name', lag', f', args') \<Rightarrow>
                 tsf u (lag' - (if u then 1 else 0)) (fn_call f') args')" if "k < length tfms" for k
    using that by (simp add: submit_all_def split_beta)
  from assms(2) obtain i where i: "i < length tfms" "tfms ! i = (name, lag, f, args)"
    by (auto simp: in_set_conv_nth)
  then have "i \<in> set order" and "?P i"
    using assms(1,3) by (simp_all add: completion_order_def fut)
  then obtain j where j: "find ?P order = Some j"
    by (cases "find ?P order") (auto simp: find_None_set)
  then have "j \<in> set order" and "?P j"
    by (auto simp: find_Some_iff)
  define e where "e = projl (fst (?futs ! j))"
  have jl: "j < length tfms" and "fst (?futs ! j) = Inl e"
    using \<open>j \<in> set order\<close> \<open>?P j\<close> assms(1) by (simp_all add: completion_order_def e_def)
  then have a: "\<exists>name' lag' f' args'. tfms ! j = (name', lag', f', args')
                 \<and> tsf u (lag' - (if u then 1 else 0)) (fn_call f') args' = Inl e"
    by (cases "tfms ! j") (simp add: fut[OF jl])
  have b: "apply_multithreaded_transforms tsf tfms u order = Inl e"
    using collect_completed_fail[OF j] by (simp add: apply_multithreaded_transforms_def Let_def e_def)
  show ?thesis
    using j jl a b by (intro exI[of _ j] exI[of _ e] conjI)
qed

theorem multithreaded_failure_witness:
  "completion_order (length (init_transforms [] [(1, [(f_returns, []), (g_raises, [])])])) [1, 0]
   \<and> (''g_lag1'', 1, g_raises, []) \<in> set (init_transforms [] [(1, [(f_returns, []), (g_raises, [])])])
   \<and> transform_series ga_example False (1 - (if False then 1 else 0)) (fn_call g_raises) []
       = Inl (Raised ''boom'')
   \<and> (\<exists>e. apply_multithreaded_transforms (transform_series ga_example)
              (init_transforms [] [(1, [(f_returns, []), (g_raises, [])])]) False [1, 0] = Inl e)"
proof -
  let ?reg = "init_transforms [] [(1, [(f_returns, []), (g_raises, [])])]"
  have r: "?reg = [(''f_lag1'', 1, f_returns, []), (''g_lag1'', 1, g_raises, [])]"
    by (simp add: init_transforms_def register_lags_def register_lag_transforms_def
      build_transform_name_def f_returns_def g_raises_def str_int_def str_nat_digit digit_char_def)
  have c: "completion_order (length ?reg) [1, 0]"
    unfolding r by (auto simp: completion_order_def)
  have m: "(''g_lag1'', 1, g_raises, []) \<in> set ?reg"
    unfolding r by simp
  have t: "transform_series ga_example False (1 - (if False then 1 else 0)) (fn_call g_raises) []
       = Inl (Raised ''boom'')"
    by (simp add: transform_series_def groups_ga_example transform_group_def g_raises_def)
  from multithreaded_failure[where tsf = "transform_series ga_example" and u = False, OF c m t]
    c m t show ?thesis
    by blast
qed

section \<open>The updates-only mode\<close>

lemma offsets_hd: "offsets n gs ! 0 = n"
  by (cases gs) simp_all

lemma length_offsets: "length (offsets n gs) = Suc (length gs)"
  by (induction gs arbitrary: n) simp_all

lemma groups_from_groups_aux:
  "map (\<lambda>i. slice (pre @ concat gs) (offsets (length pre) gs ! i) (offsets (length pre) gs ! (i + 1)))
       [0..<length gs] = gs"
proof (induction gs arbitrary: pre)
  case Nil
  then show ?case by simp
next
  case (Cons s gs)
  have u: "[0..<length (s # gs)] = 0 # map Suc [0..<length gs]"
    by (simp add: upt_conv_Cons map_Suc_upt del: upt_Suc)
  have h: "slice (pre @ s @ concat gs) (length pre) (length pre + length s) = s"
    by (simp add: slice_def)
  have "map (\<lambda>i. slice ((pre @ s) @ concat gs) (offsets (length (pre @ s)) gs ! i)
                    (offsets (length (pre @ s)) gs ! (i + 1))) [0..<length gs] = gs"
    by (rule Cons.IH)
  then show ?case
    unfolding u by (simp add: h offsets_hd comp_def)
qed

lemma groups_from_groups: "groups (from_groups gs) = gs"
  using groups_from_groups_aux[of "[]" gs]
  by (simp add: groups_def group_def[abs_def] from_groups_def n_groups_def length_offsets)

lemma n_groups_from_groups: "n_groups (from_groups gs) = length gs"
  by (simp add: from_groups_def n_groups_def length_offsets)

lemma length_groups: "length (groups g) = n_groups g"
  by (simp add: groups_def)

lemma collect_all:
  assumes "\<forall>x \<in> set xs. f x = Inr (h x)"
  shows "collect f xs = Inr (map h xs)"
  using assms by (induction xs) simp_all

lemma shift_array_zero: "shift_array xs 0 = xs"
  by (simp add: shift_array_def)

lemma identity_last: "transform_group True 0 (fn_call identity) [] (s @ [v]) = Inr [v]"
  by (simp add: transform_group_def shift_array_zero identity_def)

lemma concat_singletons:
  "length gs = length vals \<Longrightarrow> concat (map (\<lambda>x. [last x]) (map (\<lambda>(s, v). s @ [v]) (zip gs vals))) = vals"
  by (induction gs vals rule: list_induct2) simp_all

lemma append_then_update:
  assumes "ga_append g vals = Inr g'"
  shows "transform_series g' True 0 (fn_call identity) [] = Inr vals"
proof -
  from assms have l: "length vals = n_groups g"
    and g': "g' = from_groups (map (\<lambda>(s, v). s @ [v]) (zip (groups g) vals))"
    by (auto simp: ga_append_def split: if_splits)
  let ?gs = "map (\<lambda>(s, v). s @ [v]) (zip (groups g) vals)"
  have "\<forall>x \<in> set ?gs. transform_group True 0 (fn_call identity) [] x = Inr [last x]"
    by (auto simp: identity_last)
  then have "collect (transform_group True 0 (fn_call identity) []) ?gs = Inr (map (\<lambda>x. [last x]) ?gs)"
    by (rule collect_all)
  moreover have "concat (map (\<lambda>x. [last x]) ?gs) = vals"
    using l by (intro concat_singletons) (simp add: length_groups)
  ultimately show ?thesis
    by (simp add: transform_series_def g' groups_from_groups)
qed

lemma collect_completed_lookup:
  assumes "collect_completed futs [] order = Inr r"
    and "inj_on (\<lambda>i. snd (futs ! i)) (set order)" and "i \<in> set order"
  shows "\<exists>out. fst (futs ! i) = Inr out \<and> map_of r (snd (futs ! i)) = Some out"
proof -
  let ?P = "\<lambda>i. isl (fst (futs ! i))"
  have n: "find ?P order = None"
  proof (cases "find ?P order")
    case (Some j)
    from collect_completed_fail[OF this, of "[]"] assms(1) show ?thesis
      by simp
  qed simp
  then have "r = fold (\<lambda>i. dict_set (snd (futs ! i)) (projr (fst (futs ! i)))) order []"
    using collect_completed_ok[OF n, of "[]"] assms(1) by simp
  then have "map_of r (snd (futs ! i)) = Some (projr (fst (futs ! i)))"
    using fold_upd_in[OF assms(2,3), of "\<lambda>i. projr (fst (futs ! i))" Map.empty]
    by (simp add: map_of_fold_dict_set)
  moreover have "\<not> ?P i"
    using n assms(3) by (simp add: find_None_set)
  then have "fst (futs ! i) = Inr (projr (fst (futs ! i)))"
    by (cases "fst (futs ! i)") simp_all
  ultimately show ?thesis
    by blast
qed

lemma apply_transforms_keys:
  assumes "distinct (map fst tfms)" and "apply_transforms tsf tfms u = Inr r"
    and "name \<in> set (map fst tfms)"
  shows "\<exists>v. map_of r name = Some v"
proof -
  from assms(3) obtain i where i: "i < length tfms" "map fst tfms ! i = name"
    by (auto simp: in_set_conv_nth)
  have inj: "inj_on (\<lambda>k. snd (submit_all tsf u (if u then 1 else 0) tfms ! k)) (set [0..<length tfms])"
    using names_inj[OF assms(1)] by simp
  from collect_completed_lookup[OF assms(2)[unfolded apply_transforms_futures] inj, of i] i
  show ?thesis
    by (auto simp: submit_all_names)
qed

lemma apply_multithreaded_keys:
  assumes "distinct (map fst tfms)" and "completion_order (length tfms) order"
    and "apply_multithreaded_transforms tsf tfms u order = Inr r"
    and "name \<in> set (map fst tfms)"
  shows "\<exists>v. map_of r name = Some v"
proof -
  from assms(4) obtain i where i: "i < length tfms" "map fst tfms ! i = name"
    by (auto simp: in_set_conv_nth)
  have so: "set order = set [0..<length tfms]"
    using assms(2) by (simp add: completion_order_def)
  have inj: "inj_on (\<lambda>k. snd (submit_all tsf u (if u then 1 else 0) tfms ! k)) (set order)"
    using names_inj[OF assms(1)] so by simp
  have c: "collect_completed (submit_all tsf u (if u then 1 else 0) tfms) [] order = Inr r"
    using assms(3) by (simp add: apply_multithreaded_transforms_def Let_def)
  from collect_completed_lookup[OF c inj, of i] i so
  show ?thesis
    by (auto simp: submit_all_names)
qed

lemma lag1_registry: "init_transforms [1] [] = [(''lag1'', 1, identity, [])]"
  by (simp add: init_transforms_def register_lags_def register_lag_transforms_def
      str_int_def str_nat_digit digit_char_def)

text \<open>
  Claim C5. In updates-only mode the registered transform \<open>(lag, f, args)\<close> is computed by
  \<^verbatim>\<open>transform_series(True, lag - 1, f, *args)\<close>, sequentially and multithreaded, where
  the full-history mode calls \<^verbatim>\<open>transform_series(False, lag, f, *args)\<close>; so after
  \<open>append(vals)\<close> the updates-only feature \<open>lag1\<close> (lag 1, identity) is \<open>vals\<close>, one
  value per group.
\<close>

theorem updates_only_lag:
  assumes "distinct (map fst tfms)" and "(name, lag, f, args) \<in> set tfms"
    and "completion_order (length tfms) order"
  shows "(\<forall>r. apply_transforms tsf tfms True = Inr r \<longrightarrow>
            (\<exists>out. tsf True (lag - 1) (fn_call f) args = Inr out \<and> map_of r name = Some out))
       \<and> (\<forall>r. apply_multithreaded_transforms tsf tfms True order = Inr r \<longrightarrow>
            (\<exists>out. tsf True (lag - 1) (fn_call f) args = Inr out \<and> map_of r name = Some out))
       \<and> (\<forall>r. apply_transforms tsf tfms False = Inr r \<longrightarrow>
            (\<exists>out. tsf False lag (fn_call f) args = Inr out \<and> map_of r name = Some out))
       \<and> (\<forall>g vals g'. ga_append g vals = Inr g' \<longrightarrow>
            apply_transforms (transform_series g') (init_transforms [1] []) True = Inr [(''lag1'', vals)]
            \<and> length vals = n_groups g')"
proof -
  from assms(2) obtain i where i: "i < length tfms" "tfms ! i = (name, lag, f, args)"
    by (auto simp: in_set_conv_nth)
  have fut: "submit_all tsf u off tfms ! i = (tsf u (lag - off) (fn_call f) args, name)" for u off
    using i by (simp add: submit_all_def)
  have inj: "inj_on (\<lambda>k. snd (submit_all tsf u off tfms ! k)) (set [0..<length tfms])" for u off
    using names_inj[OF assms(1)] by simp
  have so: "set order = set [0..<length tfms]"
    using assms(3) by (simp add: completion_order_def)
  have seq: "\<exists>out. tsf u (lag - (if u then 1 else 0)) (fn_call f) args = Inr out \<and> map_of r name = Some out"
    if "apply_transforms tsf tfms u = Inr r" for u r
    using collect_completed_lookup[OF that[unfolded apply_transforms_futures] inj, of i] i(1)
    by (simp add: fut)
  have par: "\<exists>out. tsf u (lag - (if u then 1 else 0)) (fn_call f) args = Inr out \<and> map_of r name = Some out"
    if "apply_multithreaded_transforms tsf tfms u order = Inr r" for u r
    using collect_completed_lookup[of "submit_all tsf u (if u then 1 else 0) tfms" order r i]
      that inj[of u "if u then 1 else 0"] i(1) so
    by (simp add: fut apply_multithreaded_transforms_def Let_def)
  have app: "apply_transforms (transform_series g') (init_transforms [1] []) True = Inr [(''lag1'', vals)]
            \<and> length vals = n_groups g'"
    if "ga_append g vals = Inr g'" for g vals g'
  proof -
    from that have "length vals = n_groups g'"
      by (auto simp: ga_append_def n_groups_from_groups length_groups split: if_splits)
    then show ?thesis
      using append_then_update[OF that] by (simp add: lag1_registry apply_transforms_def)
  qed
  show ?thesis
    using seq[of True] seq[of False] par[of True] app by simp
qed

theorem updates_only_lag_witness:
  "distinct (map fst ex_lags) \<and> (''lag2'', 2, identity, []) \<in> set ex_lags
   \<and> completion_order (length ex_lags) [1, 0]
   \<and> apply_transforms (transform_series ga_example) ex_lags True
       = Inr [(''lag1'', [Val 4, Val 30]), (''lag2'', [Val 3, Val 20])]
   \<and> transform_series ga_example True (2 - 1) (fn_call identity) [] = Inr [Val 3, Val 20]
   \<and> ga_append ga_example [Val 5, Val 6]
       = Inr \<lparr>data = [Val 1, Val 2, Val 3, Val 4, Val 5, Val 10, Val 20, Val 30, Val 6],
              indptr = [0, 5, 9]\<rparr>
   \<and> apply_transforms
         (transform_series \<lparr>data = [Val 1, Val 2, Val 3, Val 4, Val 5, Val 10, Val 20, Val 30, Val 6],
                             indptr = [0, 5, 9]\<rparr>)
         (init_transforms [1] []) True = Inr [(''lag1'', [Val 5, Val 6])]"
proof -
  have d: "distinct (map fst ex_lags)" and m: "(''lag2'', 2, identity, []) \<in> set ex_lags"
    by (simp_all add: ex_lags_eq)
  have c: "completion_order (length ex_lags) [1, 0]"
    by (auto simp: completion_order_def ex_lags_eq)
  have u1: "transform_series ga_example True 0 (fn_call identity) [] = Inr [Val 4, Val 30]"
    and u2: "transform_series ga_example True 1 (fn_call identity) [] = Inr [Val 3, Val 20]"
    by (simp_all add: transform_series_def groups_ga_example transform_group_def shift_array_def
        identity_def)
  have s: "apply_transforms (transform_series ga_example) ex_lags True
       = Inr [(''lag1'', [Val 4, Val 30]), (''lag2'', [Val 3, Val 20])]"
    by (simp add: apply_transforms_def ex_lags_eq u1 u2)
  have a: "ga_append ga_example [Val 5, Val 6]
       = Inr \<lparr>data = [Val 1, Val 2, Val 3, Val 4, Val 5, Val 10, Val 20, Val 30, Val 6],
              indptr = [0, 5, 9]\<rparr>"
    by (simp add: ga_append_def length_groups[symmetric] groups_ga_example from_groups_def)
  note t = updates_only_lag[OF d m c, of "transform_series ga_example"]
  from t a have "apply_transforms
         (transform_series \<lparr>data = [Val 1, Val 2, Val 3, Val 4, Val 5, Val 10, Val 20, Val 30, Val 6],
                             indptr = [0, 5, 9]\<rparr>)
         (init_transforms [1] []) True = Inr [(''lag1'', [Val 5, Val 6])]"
    by blast
  with d m c s u2 a show ?thesis
    by simp
qed

section \<open>The frequency check of \<^verbatim>\<open>_fit\<close>\<close>

lemma fit_store_freq:
  assumes "fit_store process s df idc timec targetc statics keep = Inr s'"
  shows "freq s' = freq s \<and> warns s' = warns s"
  using assms unfolding fit_store_def Let_def
  by (auto split: sum.splits option.splits list.splits if_splits prod.splits)

lemma check_frequency_error:
  assumes "check_frequency s dt = Inl e"
  shows "dt = Datetime64 \<and> freq_is_one (freq s) \<and> e = MissingFrequency"
  using assms by (auto simp: check_frequency_def split: if_splits)

lemma index_drop_ok:
  "set labels \<subseteq> set cols \<Longrightarrow> index_drop cols labels = Inr (filter (\<lambda>c. c \<notin> set labels) cols)"
proof -
  assume "set labels \<subseteq> set cols"
  then have "filter (\<lambda>l. l \<notin> set cols) labels = []"
    by (auto simp: filter_empty_conv)
  then show ?thesis
    by (simp add: index_drop_def)
qed

lemma fit_store_sorted:
  assumes "p_sort_idxs (process df) = None" and "target_transforms s = None"
    and "{idc, timec, targetc} \<subseteq> set (columns df)"
  shows "\<exists>s'. fit_store process s df idc timec targetc None keep = Inr s'"
proof -
  have a: "index_drop (columns df) [timec, targetc]
           = Inr (filter (\<lambda>c. c \<notin> set [timec, targetc]) (columns df))"
    and b: "index_drop (columns df) [idc, timec, targetc]
           = Inr (filter (\<lambda>c. c \<notin> set [idc, timec, targetc]) (columns df))"
    using assms(3) by (simp_all add: index_drop_ok)
  have c: "filter (\<lambda>c. c \<notin> set (columns df)) (filter (\<lambda>c. c \<notin> set [timec, targetc]) (columns df)) = []"
    by (simp add: filter_empty_conv)
  show ?thesis
    unfolding fit_store_def Let_def using assms(1,2) by (simp add: a b c)
qed

text \<open>
  Claim C9. When the time column is not a datetime column (it is integer-typed) and the
  configured frequency is not 1, the check of the frequency does not raise: \<^verbatim>\<open>_fit\<close>
  warns, sets the frequency to 1 and goes on with the rest of the fit, so that a fit that
  returns has the frequency 1 (and a fit of a sorted frame with its three columns, without
  target transforms, does return). The check raises for a datetime column only, and only
  when the frequency is 1.
\<close>

theorem fit_integer_time:
  assumes "validate_format df = None" and "\<not> (\<exists>v \<in> set (target_values df). isnan v)"
    and "time_dtype df = Integer" and "\<not> freq_is_one (freq s)"
  shows "fit validate_format process s df idc timec targetc statics keep
         = fit_store process (s\<lparr>warns := warns s @ [FreqWarning], freq := IntFreq 1\<rparr>)
             df idc timec targetc statics keep
       \<and> (\<forall>s'. fit validate_format process s df idc timec targetc statics keep = Inr s' \<longrightarrow>
              freq s' = IntFreq 1 \<and> warns s' = warns s @ [FreqWarning])
       \<and> (p_sort_idxs (process df) = None \<and> target_transforms s = None
            \<and> {idc, timec, targetc} \<subseteq> set (columns df) \<and> statics = None \<longrightarrow>
            (\<exists>s'. fit validate_format process s df idc timec targetc statics keep = Inr s'))
       \<and> (\<forall>s0 dt e. check_frequency s0 dt = Inl e \<longrightarrow>
              dt = Datetime64 \<and> freq_is_one (freq s0) \<and> e = MissingFrequency)"
proof -
  let ?s = "s\<lparr>warns := warns s @ [FreqWarning], freq := IntFreq 1\<rparr>"
  have f: "fit validate_format process s df idc timec targetc statics keep
           = fit_store process ?s df idc timec targetc statics keep"
    using assms by (simp add: fit_def check_frequency_def)
  have "freq s' = IntFreq 1 \<and> warns s' = warns s @ [FreqWarning]"
    if "fit_store process ?s df idc timec targetc statics keep = Inr s'" for s'
    using fit_store_freq[OF that] by simp
  moreover have "\<exists>s'. fit_store process ?s df idc timec targetc None keep = Inr s'"
    if "p_sort_idxs (process df) = None" "target_transforms s = None"
      "{idc, timec, targetc} \<subseteq> set (columns df)"
    using that by (intro fit_store_sorted) simp_all
  ultimately show ?thesis
    unfolding f using check_frequency_error by blast
qed

lemma init_example:
  "TimeSeries_init to_offset (FreqInt 5) [1] [] [] 1 None = Inr ex_init"
  by (simp add: TimeSeries_init_def ex_init_def)

theorem fit_integer_time_witness:
  "(\<lambda>df. None) ex_frame = (None :: error option)
   \<and> \<not> (\<exists>v \<in> set (target_values ex_frame). isnan v)
   \<and> time_dtype ex_frame = Integer \<and> \<not> freq_is_one (freq ex_init)
   \<and> (\<exists>s'. fit (\<lambda>df. None) ex_process ex_init ex_frame ''id'' ''ds'' ''y'' None None = Inr s'
          \<and> freq s' = IntFreq 1 \<and> warns s' = [FreqWarning])"
proof -
  have v: "(\<lambda>df. None) ex_frame = (None :: error option)"
    by simp
  have n: "\<not> (\<exists>v \<in> set (target_values ex_frame). isnan v)"
    by (simp add: ex_frame_def isnan_def)
  have t: "time_dtype ex_frame = Integer" and f: "\<not> freq_is_one (freq ex_init)"
    by (simp_all add: ex_frame_def ex_init_def)
  have p: "p_sort_idxs (ex_process ex_frame) = None \<and> target_transforms ex_init = None
           \<and> {''id'', ''ds'', ''y''} \<subseteq> set (columns ex_frame) \<and> (None :: string list option) = None"
    by (simp add: ex_process_def ex_init_def ex_frame_def)
  have w: "warns ex_init = []"
    by (simp add: ex_init_def)
  note th = fit_integer_time[OF v n t f, of ex_process "''id''" "''ds''" "''y''" None None]
  from th[THEN conjunct2, THEN conjunct2, THEN conjunct1] p
  have "\<exists>s'. fit (\<lambda>df. None) ex_process ex_init ex_frame ''id'' ''ds'' ''y'' None None = Inr s'"
    by (rule mp)
  then obtain s' where s': "fit (\<lambda>df. None) ex_process ex_init ex_frame ''id'' ''ds'' ''y'' None None = Inr s'" ..
  have "freq s' = IntFreq 1 \<and> warns s' = warns ex_init @ [FreqWarning]"
    by (rule th[THEN conjunct2, THEN conjunct1, rule_format, OF s'])
  with s' have "\<exists>s'. fit (\<lambda>df. None) ex_process ex_init ex_frame ''id'' ''ds'' ''y'' None None = Inr s'
          \<and> freq s' = IntFreq 1 \<and> warns s' = [FreqWarning]"
    by (intro exI[of _ s']) (simp add: w)
  with v n t f show ?thesis
    by (intro conjI)
qed

section \<open>The rows that \<^verbatim>\<open>_transform\<close> drops\<close>

lemma or_nulls_spec:
  assumes "\<forall>v \<in> set vs. length v = length nulls"
  shows "\<exists>r. or_nulls nulls vs = Inr r \<and> length r = length nulls
           \<and> (\<forall>i < length nulls. r ! i = (nulls ! i \<or> (\<exists>v \<in> set vs. isnan (v ! i))))"
  using assms
proof (induction vs arbitrary: nulls)
  case Nil
  then show ?case by simp
next
  case (Cons v vs)
  let ?n = "map (\<lambda>(a, b). a \<or> b) (zip nulls (map isnan v))"
  have l: "length ?n = length nulls"
    using Cons.prems by simp
  with Cons.prems have "\<forall>v \<in> set vs. length v = length ?n"
    by simp
  from Cons.IH[OF this] obtain r where r: "or_nulls ?n vs = Inr r" "length r = length ?n"
    "\<forall>i < length ?n. r ! i = (?n ! i \<or> (\<exists>v \<in> set vs. isnan (v ! i)))"
    by blast
  have "r ! i = (nulls ! i \<or> (\<exists>v \<in> set (v # vs). isnan (v ! i)))" if "i < length nulls" for i
    using r(3) that l Cons.prems by auto
  with r l Cons.prems show ?case
    by simp
qed

lemma select_rows_spec:
  assumes "length keep = length xs"
  shows "select_rows keep xs = Inr (rows_at (filter (\<lambda>i. keep ! i) [0..<length xs]) xs)"
proof -
  have z: "zip keep xs = map (\<lambda>i. (keep ! i, xs ! i)) [0..<length xs]"
    using assms by (intro nth_equalityI) simp_all
  have "map snd (filter fst (zip keep xs)) = map (\<lambda>i. xs ! i) (filter (\<lambda>i. keep ! i) [0..<length xs])"
    unfolding z by (simp add: filter_map comp_def)
  with assms show ?thesis
    by (simp add: select_rows_def rows_at_def)
qed

lemma select_rows_all:
  "select_rows (replicate (length xs) True) xs = Inr xs"
proof -
  have "filter fst (zip (replicate (length xs) True) xs) = zip (replicate (length xs) True) xs"
    by (rule filter_True) (auto simp: set_zip)
  then show ?thesis
    by (simp add: select_rows_def)
qed

lemma feature_columns_spec:
  assumes "\<forall>name \<in> set names. \<exists>v. map_of feats name = Some v \<and> select_rows keep v = Inr (g v)"
  shows "\<exists>cols. feature_columns keep feats acc names = Inr cols
           \<and> (\<forall>name. map_of cols name
                 = (if name \<in> set names then map_option g (map_of feats name) else map_of acc name))"
  using assms
proof (induction names arbitrary: acc)
  case Nil
  then show ?case by simp
next
  case (Cons feat names)
  from Cons.prems obtain v where v: "map_of feats feat = Some v" "select_rows keep v = Inr (g v)"
    by auto
  from Cons.prems have "\<forall>name \<in> set names. \<exists>v. map_of feats name = Some v \<and> select_rows keep v = Inr (g v)"
    by simp
  from Cons.IH[OF this, of "dict_set feat (g v) acc"] obtain cols where
    c: "feature_columns keep feats (dict_set feat (g v) acc) names = Inr cols"
      "\<forall>name. map_of cols name
                 = (if name \<in> set names then map_option g (map_of feats name)
                    else map_of (dict_set feat (g v) acc) name)"
    by blast
  have "map_of cols name
        = (if name \<in> set (feat # names) then map_option g (map_of feats name) else map_of acc name)"
    for name
    using c(2) v(1) by (simp add: map_of_dict_set)
  with c(1) v show ?case
    by simp
qed


lemma rows_at_all: "rows_at [0..<length xs] xs = xs"
  by (simp add: rows_at_def map_nth)

lemma keep_rows_spec:
  assumes "\<forall>(name, v) \<in> set feats. length v = n" and "target_rows t = n"
  shows "\<exists>keep. keep_rows_of n feats t = Inr keep \<and> length keep = n
           \<and> (\<forall>i < n. keep ! i = (\<not> null_row feats t i))"
proof -
  have "\<forall>v \<in> set (map snd feats). length v = length (replicate n False)"
    using assms(1) by auto
  from or_nulls_spec[OF this] obtain fnulls where
    f: "or_nulls (replicate n False) (map snd feats) = Inr fnulls" "length fnulls = n"
      "\<forall>i < n. fnulls ! i = (\<exists>v \<in> set (map snd feats). isnan (v ! i))"
    by auto
  have tl: "length (target_nulls t) = n"
    using assms(2) by (simp add: target_nulls_def target_rows_def split: target.splits)
  have tn: "target_nulls t ! i = (case t of Target1 vals \<Rightarrow> isnan (vals ! i)
                   | Target2 rows \<Rightarrow> (\<forall>x \<in> set (rows ! i). isnan x))" if "i < n" for i
    using that assms(2)
    by (simp add: target_nulls_def target_rows_def list_all_iff split: target.splits)
  let ?keep = "map (\<lambda>(a, b). \<not> (a \<or> b)) (zip fnulls (target_nulls t))"
  have "?keep ! i = (\<not> null_row feats t i)" if "i < n" for i
  proof -
    have "(\<exists>v \<in> set (map snd feats). isnan (v ! i)) = (\<exists>(name, v) \<in> set feats. isnan (v ! i))"
      by force
    with that f tl tn[OF that] show ?thesis
      by (simp add: null_row_def)
  qed
  moreover have "keep_rows_of n feats t = Inr ?keep" "length ?keep = n"
    using f tl by (simp_all add: keep_rows_of_def)
  ultimately show ?thesis
    by blast
qed

lemma select_target_spec:
  assumes "length keep = target_rows t"
  shows "select_target keep t = Inr (target_at (filter (\<lambda>i. keep ! i) [0..<target_rows t]) t)"
  using assms
  by (cases t) (simp_all add: select_target_def target_at_def target_rows_def select_rows_spec)

lemma filter_rows_spec:
  assumes "\<forall>(name, v) \<in> set feats. length v = length df" and "target_rows t = length df"
    and "set names \<subseteq> fst ` set feats"
  shows "\<exists>out. filter_rows do_drop df feats t names = Inr out
     \<and> (let kept = (if do_drop then filter (\<lambda>i. \<not> null_row feats t i) [0..<length df]
                     else [0..<length df])
        in t_rows out = rows_at kept df \<and> t_target out = target_at kept t
           \<and> (\<forall>name \<in> set names. \<exists>v. map_of feats name = Some v
                  \<and> map_of (t_features out) name = Some (rows_at kept v)))"
proof -
  let ?n = "length df"
  define kept where "kept = (if do_drop then filter (\<lambda>i. \<not> null_row feats t i) [0..<?n] else [0..<?n])"
  obtain keep where k: "(if do_drop then keep_rows_of ?n feats t else Inr (replicate ?n True)) = Inr keep"
    "length keep = ?n" "\<forall>i < ?n. keep ! i = (do_drop \<longrightarrow> \<not> null_row feats t i)"
    using keep_rows_spec[OF assms(1,2)] by (cases do_drop) auto
  have kf: "filter (\<lambda>i. keep ! i) [0..<?n] = kept"
    unfolding kept_def using k(3) by (auto intro: filter_cong simp: filter_id_conv)
  have rows: "select_rows keep df = Inr (rows_at kept df)"
    using select_rows_spec[of keep df] k(2) kf by simp
  have tgt: "select_target keep t = Inr (target_at kept t)"
    using select_target_spec[of keep t] k(2) kf assms(2) by simp
  have cols: "\<forall>name \<in> set names. \<exists>v. map_of feats name = Some v \<and> select_rows keep v = Inr (rows_at kept v)"
  proof
    fix name
    assume "name \<in> set names"
    with assms(3) obtain v where v: "map_of feats name = Some v"
      by (metis domD dom_map_of_conv_image_fst subsetD)
    then have "(name, v) \<in> set feats"
      by (rule map_of_SomeD)
    with assms(1) have "length v = ?n"
      by auto
    with select_rows_spec[of keep v] k(2) kf v
    show "\<exists>v. map_of feats name = Some v \<and> select_rows keep v = Inr (rows_at kept v)"
      by simp
  qed
  from feature_columns_spec[OF cols, of "[]"] obtain cs where
    cs: "feature_columns keep feats [] names = Inr cs"
      "\<forall>name. map_of cs name = (if name \<in> set names then map_option (rows_at kept) (map_of feats name)
                                 else map_of [] name)"
    by blast
  have look: "\<forall>name \<in> set names. \<exists>v. map_of feats name = Some v \<and> map_of cs name = Some (rows_at kept v)"
    using cs(2) cols by auto
  have "filter_rows do_drop df feats t names = Inr \<lparr>t_rows = rows_at kept df, t_features = cs,
          t_target = target_at kept t\<rparr>"
  proof (cases do_drop)
    case True
    with k(1) rows tgt cs(1) show ?thesis
      by (simp add: filter_rows_def)
  next
    case False
    with k(1) have "keep = replicate ?n True"
      by simp
    moreover from False have "kept = [0..<?n]"
      by (simp add: kept_def)
    moreover have "target_at [0..<target_rows t] t = t"
      by (cases t) (simp_all add: target_at_def target_rows_def rows_at_all)
    then have "target_at [0..<?n] t = t"
      using assms(2) by simp
    ultimately show ?thesis
      using False cs(1) by (simp add: filter_rows_def rows_at_all)
  qed
  with look show ?thesis
    unfolding kept_def[symmetric] Let_def by simp
qed

lemma restore_all_spec:
  assumes "restore_all idxs kvs = Inr kvs'"
  shows "map fst kvs' = map fst kvs \<and> (\<forall>(k, v) \<in> set kvs'. length v = length idxs)"
  using assms
proof (induction kvs arbitrary: kvs')
  case Nil
  then show ?case by simp
next
  case (Cons kv kvs)
  obtain k v where kv: "kv = (k, v)" by (cases kv)
  from Cons.prems obtain v' rest where
    r: "np_take v idxs = Inr v'" "restore_all idxs kvs = Inr rest" "kvs' = (k, v') # rest"
    by (auto simp: kv split: sum.splits)
  from r(1) have "length v' = length idxs"
    by (auto simp: np_take_def split: if_splits)
  with Cons.IH[OF r(2)] r(3) show ?case
    by (simp add: kv)
qed

lemma restored_features_spec:
  assumes "restored_features tsf order s = Inr feats"
    and "distinct (map fst (transforms s))" and "completion_order (length (transforms s)) order"
  shows "(\<forall>(name, v) \<in> set feats. length v = length (restore_idxs s))
       \<and> set (map fst (transforms s)) \<subseteq> fst ` set feats"
proof -
  from assms(1) obtain results where
    c: "compute_transforms s (tsf (ga s)) order = Inr results"
    and r: "restore_all (restore_idxs s) results = Inr feats"
    by (auto simp: restored_features_def split: sum.splits)
  have "\<exists>v. map_of results name = Some v" if "name \<in> set (map fst (transforms s))" for name
    using c that apply_transforms_keys[OF assms(2), of "tsf (ga s)" False results name]
      apply_multithreaded_keys[OF assms(2,3), of "tsf (ga s)" False results name]
    by (auto simp: compute_transforms_def split: if_splits)
  then have "set (map fst (transforms s)) \<subseteq> fst ` set results"
  proof (intro subsetI)
    fix name
    assume "name \<in> set (map fst (transforms s))"
    then obtain v where "map_of results name = Some v"
      using \<open>\<And>name. name \<in> set (map fst (transforms s)) \<Longrightarrow> \<exists>v. map_of results name = Some v\<close>
      by blast
    then have "(name, v) \<in> set results"
      by (rule map_of_SomeD)
    then show "name \<in> fst ` set results"
      by force
  qed
  with restore_all_spec[OF r] show ?thesis
    by (metis set_map)
qed

lemma restored_target_spec:
  assumes "restored_target s mh = Inr t"
  shows "target_rows t = length (restore_idxs s)"
  using assms
  by (auto simp: restored_target_def target_rows_def np_take_def split: option.splits sum.splits if_splits)

text \<open>
  Claim C4. \<^verbatim>\<open>_transform\<close> on a frame with as many rows as \<^verbatim>\<open>restore_idxs\<close>, with
  the features and the target as computed and reordered: it returns, and with
  \<^verbatim>\<open>dropna\<close> the rows kept, of the frame, of the target and of every feature, are
  those that are not null rows, in their order (so the rows removed are the null rows: a
  feature is NaN there, or the target is null, which for a target of several horizons
  means null for every horizon); without \<^verbatim>\<open>dropna\<close> every row is kept.
\<close>

theorem transform_drops_null_rows:
  assumes "restored_features tsf order s = Inr feats"
    and "restored_target s mh = Inr t"
    and "length df = length (restore_idxs s)"
    and "distinct (map fst (transforms s))" and "completion_order (length (transforms s)) order"
  shows "\<exists>out. transform_df tsf order s df do_drop mh = Inr (s\<lparr>max_horizon := mh\<rparr>, out)
     \<and> (let kept = (if do_drop then filter (\<lambda>i. \<not> null_row feats t i) [0..<length df]
                     else [0..<length df])
        in t_rows out = rows_at kept df \<and> t_target out = target_at kept t
           \<and> (\<forall>name \<in> set (map fst (transforms s)). \<exists>v. map_of feats name = Some v
                  \<and> map_of (t_features out) name = Some (rows_at kept v)))"
proof -
  from restored_features_spec[OF assms(1,4,5)] assms(3)
  have a: "\<forall>(name, v) \<in> set feats. length v = length df"
    and c: "set (map fst (transforms s)) \<subseteq> fst ` set feats"
    by simp_all
  have b: "target_rows t = length df"
    using restored_target_spec[OF assms(2)] assms(3) by simp
  from filter_rows_spec[OF a b c, of do_drop] obtain out where
    "filter_rows do_drop df feats t (map fst (transforms s)) = Inr out"
    and "let kept = (if do_drop then filter (\<lambda>i. \<not> null_row feats t i) [0..<length df]
                     else [0..<length df])
        in t_rows out = rows_at kept df \<and> t_target out = target_at kept t
           \<and> (\<forall>name \<in> set (map fst (transforms s)). \<exists>v. map_of feats name = Some v
                  \<and> map_of (t_features out) name = Some (rows_at kept v))"
    by blast
  then show ?thesis
    using assms(1,2) by (intro exI[of _ out]) (simp add: transform_df_def)
qed

lemma fit_example:
  "fit (\<lambda>df. None) ex_process ex_init ex_frame ''id'' ''ds'' ''y'' None None = Inr ex_fitted"
  by (simp add: fit_def check_frequency_def fit_store_def ex_frame_def ex_process_def ex_init_def
      ex_fitted_def isnan_def index_drop_def features_def date_feature_names_def lag1_registry
      ga_example_def upt_rec)

lemma transforms_ex_fitted: "transforms ex_fitted = [(''lag1'', 1, identity, [])]"
  by (simp add: ex_fitted_def ex_init_def lag1_registry)

lemma features_ex_fitted:
  "restored_features transform_series [0] ex_fitted
   = Inr [(''lag1'', [NaN, Val 1, Val 2, Val 3, NaN, Val 10, Val 20])]"
  by (simp add: restored_features_def compute_transforms_def transforms_ex_fitted apply_transforms_def)
     (simp add: ex_fitted_def ex_init_def ex1 np_take_def)

lemma target_ex_fitted:
  "restored_target ex_fitted None = Inr (Target1 [Val 1, Val 2, Val 3, Val 4, Val 10, Val 20, Val 30])"
  by (simp add: restored_target_def ex_fitted_def ex_init_def np_take_def ga_example_def)

lemma upt7: "[0..<7] = [0, 1, 2, 3, 4, 5, 6]"
  by (simp add: upt_rec)

theorem transform_drops_null_rows_witness:
  "restored_features transform_series [0] ex_fitted
     = Inr [(''lag1'', [NaN, Val 1, Val 2, Val 3, NaN, Val 10, Val 20])]
   \<and> restored_target ex_fitted None = Inr (Target1 [Val 1, Val 2, Val 3, Val 4, Val 10, Val 20, Val 30])
   \<and> length [0, 1, 2, 3, 4, 5, 6 :: nat] = length (restore_idxs ex_fitted)
   \<and> distinct (map fst (transforms ex_fitted))
   \<and> completion_order (length (transforms ex_fitted)) [0]
   \<and> (\<exists>out. transform_df transform_series [0] ex_fitted [0, 1, 2, 3, 4, 5, 6 :: nat] True None
               = Inr (ex_fitted\<lparr>max_horizon := None\<rparr>, out)
          \<and> t_rows out = [1, 2, 3, 5, 6]
          \<and> t_target out = Target1 [Val 2, Val 3, Val 4, Val 20, Val 30]
          \<and> map_of (t_features out) ''lag1'' = Some [Val 1, Val 2, Val 3, Val 10, Val 20])"
proof -
  let ?feats = "[(''lag1'', [NaN, Val 1, Val 2, Val 3, NaN, Val 10, Val 20])]"
  let ?t = "Target1 [Val 1, Val 2, Val 3, Val 4, Val 10, Val 20, Val 30]"
  have l: "length [0, 1, 2, 3, 4, 5, 6 :: nat] = length (restore_idxs ex_fitted)"
    by (simp add: ex_fitted_def)
  have d: "distinct (map fst (transforms ex_fitted))"
    and c: "completion_order (length (transforms ex_fitted)) [0]"
    by (simp_all add: transforms_ex_fitted completion_order_def)
  have k: "filter (\<lambda>i. \<not> null_row ?feats ?t i) [0..<length [0, 1, 2, 3, 4, 5, 6 :: nat]] = [1, 2, 3, 5, 6]"
    by (simp add: upt7 null_row_def isnan_def)
  from transform_drops_null_rows[OF features_ex_fitted target_ex_fitted l d c, of True]
  obtain out where
    o: "transform_df transform_series [0] ex_fitted [0, 1, 2, 3, 4, 5, 6 :: nat] True None
               = Inr (ex_fitted\<lparr>max_horizon := None\<rparr>, out)"
    and r: "t_rows out = rows_at [1, 2, 3, 5, 6] [0, 1, 2, 3, 4, 5, 6 :: nat]"
      "t_target out = target_at [1, 2, 3, 5, 6] ?t"
      "\<exists>v. map_of ?feats ''lag1'' = Some v \<and> map_of (t_features out) ''lag1'' = Some (rows_at [1, 2, 3, 5, 6] v)"
    unfolding k Let_def by (auto simp: transforms_ex_fitted)
  from r have "t_rows out = [1, 2, 3, 5, 6]" "t_target out = Target1 [Val 2, Val 3, Val 4, Val 20, Val 30]"
    "map_of (t_features out) ''lag1'' = Some [Val 1, Val 2, Val 3, Val 10, Val 20]"
    by (simp_all add: rows_at_def target_at_def)
  with o have "\<exists>out. transform_df transform_series [0] ex_fitted [0, 1, 2, 3, 4, 5, 6 :: nat] True None
               = Inr (ex_fitted\<lparr>max_horizon := None\<rparr>, out)
          \<and> t_rows out = [1, 2, 3, 5, 6]
          \<and> t_target out = Target1 [Val 2, Val 3, Val 4, Val 20, Val 30]
          \<and> map_of (t_features out) ''lag1'' = Some [Val 1, Val 2, Val 3, Val 10, Val 20]"
    by blast
  with features_ex_fitted target_ex_fitted l d c show ?thesis
    by (intro conjI)
qed

section \<open>The checks of the exogenous features\<close>

lemma ex_fitted_fields:
  "id_col ex_fitted = ''id''" "time_col ex_fitted = ''ds''" "fitted_static_features ex_fitted = [''id'']"
  "freq ex_fitted = IntFreq 1" "uids ex_fitted = [0, 1]" "last_dates ex_fitted = [4, 3]"
  "max_horizon ex_fitted = None" "target_transforms ex_fitted = None" "keep_last_n ex_fitted = None"
  "priv_ga ex_fitted = ga_example" "num_threads ex_fitted = 1" "target_col ex_fitted = ''y''"
  "fitted_features_order ex_fitted = [''lag1'']"
  by (simp_all add: ex_fitted_def ex_init_def)

lemma select_ids_all: "select_ids ex_fitted None = Inr ([0, 1], None, [4, 3])"
  by (simp add: select_ids_def ex_fitted_fields)

text \<open>
  Claim C8 does not hold as stated: a frame that shares no column with the static features
  and has one row per id and step is refused when it has no feature column (and likewise
  when it lacks the id or the time column).
\<close>

theorem exog_without_features_raises:
  "common_columns ex_fitted ex_X_no_features = []
   \<and> int (length (window_rows ex_fitted [0, 1] [4, 3] 1 ex_X_no_features)) = int (length [0 :: nat, 1]) * 1
   \<and> predict ex_env transform_series [0] ex_fitted [(''zero'', ex_zero)] 1 None None
        (Some ex_X_no_features) None = Inl NoExogenousFeatures"
  by (simp add: common_columns_def window_rows_def predict_def select_ids_all validate_exog_def
      ex_X_no_features_def ex_fitted_fields)

lemma validate_exog_priv:
  "validate_exog (s\<lparr>priv_uids := us', priv_idxs := idxs\<rparr>) us lds horizon X = validate_exog s us lds horizon X"
  by (simp add: validate_exog_def common_columns_def window_rows_def)

text \<open>
  Claim C8, amended. For the ids that \<^verbatim>\<open>predict\<close> is called with: if \<^verbatim>\<open>X_df\<close> shares a
  column other than the id and time columns with the static features, or the number of its
  rows in the forecast window is not the number of ids times the horizon, the checks of
  \<^verbatim>\<open>X_df\<close> raise; what they raise is what \<^verbatim>\<open>predict\<close> raises, whatever the models
  and the callbacks, so before the forecasting loop; and when neither condition holds,
  \<^verbatim>\<open>X_df\<close> has the id and time columns, at least three columns and no column named
  \<open>_start\<close> or \<open>_end\<close>, and the id column is among the static features (as it is after
  a fit), the checks raise nothing.
\<close>

theorem exog_validation:
  assumes "select_ids s ids = Inr (us, idxs, lds)"
  shows "(common_columns s X \<noteq> []
          \<or> int (length (window_rows s us lds horizon X)) \<noteq> int (length us) * horizon
          \<longrightarrow> (\<exists>e. validate_exog s us lds horizon X = Inl e))
       \<and> (\<forall>e. validate_exog s us lds horizon X = Inl e \<longrightarrow>
             predict en tsf order s models horizon before_cb after_cb (Some X) ids = Inl e)
       \<and> (id_col s \<in> set (x_columns X) \<and> time_col s \<in> set (x_columns X) \<and> 3 \<le> length (x_columns X)
          \<and> id_col s \<in> set (fitted_static_features s)
          \<and> ''_start'' \<notin> set (x_columns X) \<and> ''_end'' \<notin> set (x_columns X)
          \<and> common_columns s X = []
          \<and> int (length (window_rows s us lds horizon X)) = int (length us) * horizon
          \<longrightarrow> (\<exists>rows. validate_exog s us lds horizon X = Inr rows))"
proof (intro conjI allI impI)
  assume "common_columns s X \<noteq> []
          \<or> int (length (window_rows s us lds horizon X)) \<noteq> int (length us) * horizon"
  then show "\<exists>e. validate_exog s us lds horizon X = Inl e"
    by (auto simp: validate_exog_def)
next
  fix e
  assume "validate_exog s us lds horizon X = Inl e"
  with assms show "predict en tsf order s models horizon before_cb after_cb (Some X) ids = Inl e"
    by (simp add: predict_def validate_exog_priv)
next
  assume "id_col s \<in> set (x_columns X) \<and> time_col s \<in> set (x_columns X) \<and> 3 \<le> length (x_columns X)
          \<and> id_col s \<in> set (fitted_static_features s)
          \<and> ''_start'' \<notin> set (x_columns X) \<and> ''_end'' \<notin> set (x_columns X)
          \<and> common_columns s X = []
          \<and> int (length (window_rows s us lds horizon X)) = int (length us) * horizon"
  then show "\<exists>rows. validate_exog s us lds horizon X = Inr rows"
    by (simp add: validate_exog_def)
qed

theorem exog_validation_witness:
  "select_ids ex_fitted None = Inr ([0, 1], None, [4, 3])
   \<and> int (length (window_rows ex_fitted [0, 1] [4, 3] 1 ex_X_short)) \<noteq> int (length [0 :: nat, 1]) * 1
   \<and> (\<exists>e. predict ex_env transform_series [0] ex_fitted [(''zero'', ex_zero)] 1 None None
              (Some ex_X_short) None = Inl e)
   \<and> (\<exists>rows. validate_exog ex_fitted [0, 1] [4, 3] 1 ex_X = Inr rows)"
proof -
  have w: "int (length (window_rows ex_fitted [0, 1] [4, 3] 1 ex_X_short)) \<noteq> int (length [0 :: nat, 1]) * 1"
    by (simp add: window_rows_def ex_X_short_def ex_fitted_fields)
  note short = exog_validation[OF select_ids_all, where X = ex_X_short and horizon = 1
      and en = ex_env and tsf = transform_series and order = "[0]" and models = "[(''zero'', ex_zero)]"
      and before_cb = None and after_cb = None]
  from short[THEN conjunct1] w obtain e where
    e: "validate_exog ex_fitted [0, 1] [4, 3] 1 ex_X_short = Inl e"
    by blast
  have p: "predict ex_env transform_series [0] ex_fitted [(''zero'', ex_zero)] 1 None None
              (Some ex_X_short) None = Inl e"
    by (rule short[THEN conjunct2, THEN conjunct1, rule_format, OF e])
  have c: "id_col ex_fitted \<in> set (x_columns ex_X) \<and> time_col ex_fitted \<in> set (x_columns ex_X)
          \<and> 3 \<le> length (x_columns ex_X) \<and> id_col ex_fitted \<in> set (fitted_static_features ex_fitted)
          \<and> ''_start'' \<notin> set (x_columns ex_X) \<and> ''_end'' \<notin> set (x_columns ex_X)
          \<and> common_columns ex_fitted ex_X = []
          \<and> int (length (window_rows ex_fitted [0, 1] [4, 3] 1 ex_X)) = int (length [0 :: nat, 1]) * 1"
    by (simp add: common_columns_def window_rows_def ex_X_def ex_fitted_fields)
  have "\<exists>rows. validate_exog ex_fitted [0, 1] [4, 3] 1 ex_X = Inr rows"
    using exog_validation[OF select_ids_all, where X = ex_X and horizon = 1,
        THEN conjunct2, THEN conjunct2] c
    by (rule mp)
  with select_ids_all w p show ?thesis
    by (intro conjI exI[of _ e])
qed

section \<open>Recursive forecasting\<close>



















section \<open>The callback after the prediction\<close>




















end
